theory Spec2Isabelle
  imports Main "HOL-Library.AList"
begin

section \<open>Frames of a video sample: the deferred-write cache of fiftyone/core/frame.py\<close>

text \<open>
  The theory embeds the classes \<open>Frames\<close> and \<open>FramesView\<close> of
  \<^verbatim>\<open>fiftyone/core/frame.py\<close>. A \<open>Frames\<close> object keeps three pieces of pending
  state (\<open>_replacements\<close>, \<open>_delete_frames\<close>, \<open>_delete_all\<close>) over the frame collection
  of the dataset. Python objects live in an explicit heap, so that "the same instance"
  is "the same address"; the frame collection, the registry of live \<open>Frame\<close> singletons
  and the frame schema are fields of one \<open>world\<close> record that every operation takes and
  returns.
\<close>

subsection \<open>Values, errors, results\<close>

text \<open>
  The Python values a caller may pass as a frame number or store in a field: \<open>None\<close>,
  integers, booleans, finite floats (\<open>PFloat m e\<close> is the float of value \<open>m / 2 ^ e\<close>),
  strings, and lists, which stand for the unhashable values.
\<close>

datatype pyval =
    PNone
  | PInt int
  | PBool bool
  | PFloat int nat
  | PStr string
  | PList "pyval list"

datatype error =
    InvalidKey
  | ValueError string
  | BulkWriteError "string list"
  | IndexError
  | TypeError
  | FieldNotAccessible string

text \<open>
  Python's dicts and sets hash their keys and compare them with \<open>==\<close>: a list cannot be
  a key, and \<open>1\<close>, \<open>True\<close> and \<open>1.0\<close> are one key. \<open>key_int k\<close> is the integer that the
  key \<open>k\<close> is equal to, if there is one.
\<close>

definition hashable :: "pyval \<Rightarrow> bool" where
  "hashable k = (case k of PList xs \<Rightarrow> False | _ \<Rightarrow> True)"

definition key_int :: "pyval \<Rightarrow> int option" where
  "key_int k =
     (case k of
        PInt n \<Rightarrow> Some n
      | PBool b \<Rightarrow> Some (if b then 1 else 0)
      | PFloat m e \<Rightarrow> if 2 ^ e dvd m then Some (m div 2 ^ e) else None
      | _ \<Rightarrow> None)"

definition py_eq :: "pyval \<Rightarrow> pyval \<Rightarrow> bool" where
  "py_eq a b =
     (case (key_int a, key_int b) of
        (Some x, Some y) \<Rightarrow> x = y
      | (None, None) \<Rightarrow>
          (case (a, b) of
             (PFloat m e, PFloat m' e') \<Rightarrow> m * 2 ^ e' = m' * 2 ^ e
           | _ \<Rightarrow> a = b)
      | _ \<Rightarrow> False)"

text \<open>\<open>n in ks\<close> for an integer \<open>n\<close>, and \<open>ks.add(k)\<close>, on a set kept as a list.\<close>

definition in_deletes :: "int \<Rightarrow> pyval list \<Rightarrow> bool" where
  "in_deletes n ks = (Some n \<in> key_int ` set ks)"

definition set_add :: "pyval \<Rightarrow> pyval list \<Rightarrow> pyval list" where
  "set_add k ks = (if list_ex (py_eq k) ks then ks else k # ks)"

lemma list_ex_py_eq: "key_int k = Some n \<Longrightarrow> list_ex (py_eq k) ks \<longleftrightarrow> in_deletes n ks"
proof -
  assume k: "key_int k = Some n"
  have "py_eq k x \<longleftrightarrow> key_int x = Some n" for x
    using k by (auto simp: py_eq_def split: option.splits)
  then have "list_ex (py_eq k) ks \<longleftrightarrow> (\<exists>x\<in>set ks. key_int x = Some n)"
    by (simp add: list_ex_iff)
  also have "\<dots> \<longleftrightarrow> in_deletes n ks"
    unfolding in_deletes_def image_iff by (metis (no_types))
  finally show ?thesis .
qed

lemma in_deletes_set_add:
  "in_deletes n (set_add k ks) \<longleftrightarrow> in_deletes n ks \<or> key_int k = Some n"
proof (cases "key_int k")
  case None
  then show ?thesis by (auto simp: set_add_def in_deletes_def)
next
  case (Some m)
  show ?thesis
    using list_ex_py_eq[OF Some, of ks] Some
    by (auto simp: set_add_def in_deletes_def)
qed


datatype 'a result = Ok 'a | Raise error

subsection \<open>Frame objects, stored documents, the world\<close>

datatype kind = Frame | FrameView | Other

text \<open>
  A \<open>Frame\<close> or \<open>FrameView\<close> object with its backing document. \<open>doc_id\<close> is the
  \<open>_id\<close> of the backing document (absent until the document is inserted), \<open>in_dataset\<close>
  tells a dataset document from a \<open>NoDatasetFrameSampleDocument\<close>; \<open>_sample_id\<close> and
  \<open>frame_number\<close> are the two declared fields of \<^verbatim>\<open>odm/frame.py\<close>, \<open>field_bag\<close> is the
  bag of all other fields in insertion order. The three last fields are the
  restrictions a \<open>FrameView\<close> carries.
\<close>

record frame =
  kind :: kind
  doc_id :: "nat option"
  in_dataset :: bool
  sample_id :: "nat option"
  frame_number :: "int option"
  field_bag :: "(string \<times> pyval) list"
  selected_fields :: "string list option"
  excluded_fields :: "string list option"
  filtered_fields :: "string list option"

text \<open>
  The dictionaries \<open>d\<close> that travel between the collection and the frames:
  \<^verbatim>\<open>{"_id": ..., "_sample_id": ..., "frame_number": ..., <fields>}\<close>, each of the three
  keys possibly missing.
\<close>

record mdict =
  md_id :: "nat option"
  md_sample_id :: "nat option"
  md_frame_number :: "int option"
  md_fields :: "(string \<times> pyval) list"

text \<open>
  A document of the frame collection. \<^verbatim>\<open>odm/frame.py\<close> declares \<open>_sample_id\<close> and
  \<open>frame_number\<close> as required, and the store assigns every document an \<open>_id\<close>.
\<close>

record stored =
  st_id :: nat
  st_sample_id :: nat
  st_frame_number :: int
  st_fields :: "(string \<times> pyval) list"

record world =
  heap :: "frame list"
  collection :: "stored list"
  instances :: "((nat \<times> int) \<times> nat) list"
  schema :: "string list"
  next_id :: nat

text \<open>
  Modelled from the spec: the parent sample (class \<open>Sample\<close> is not part of the sources)
  exposes its store id and the flag "is this parent persisted"; a parent is persisted
  exactly when it has a store id.
\<close>

record sample =
  sample_oid :: "nat option"

definition sample_in_db :: "sample \<Rightarrow> bool" where
  "sample_in_db smp = (sample_oid smp \<noteq> None)"

text \<open>
  The \<open>Frames\<close> object. \<open>_replacements\<close> is a Python dict from frame number to frame
  (an association list in insertion order, the values being heap addresses);
  \<open>_delete_frames\<close> is a Python set, kept as a list of the keys as the caller passed
  them (\<open>__delitem__\<close> does not validate them), no two of them equal.
\<close>

record frames =
  sample :: sample
  replacements :: "(int \<times> nat) list"
  delete_frames :: "pyval list"
  delete_all :: bool

definition in_db :: "'a frames_scheme \<Rightarrow> bool" where
  "in_db s = sample_in_db (sample s)"

definition frame_in_db :: "frame \<Rightarrow> bool" where
  "frame_in_db f = (in_dataset f \<and> doc_id f \<noteq> None)"

subsection \<open>Collaborators outside the sources\<close>

text \<open>
  Modelled from the spec: \<open>fofu.validate_frame_number\<close> (module \<open>frame_utils\<close> is not
  part of the sources) accepts positive integers only and fails with \<open>InvalidKey\<close>
  otherwise.
\<close>

definition validate_frame_number :: "pyval \<Rightarrow> int result" where
  "validate_frame_number k =
     (case k of PInt n \<Rightarrow> if n < 1 then Raise InvalidKey else Ok n
      | _ \<Rightarrow> Raise InvalidKey)"

text \<open>Allocation of a new Python object: the next free address of the heap.\<close>

definition alloc :: "frame \<Rightarrow> world \<Rightarrow> nat \<times> world" where
  "alloc f w = (length (heap w), w\<lparr>heap := heap w @ [f]\<rparr>)"

text \<open>
  Modelled from the spec: the process-wide registry of live \<open>Frame\<close> instances
  (\<open>FrameSingleton\<close>, not part of the sources) maps a parent id and a frame number to
  the live instance; \<open>Frame._get_instances\<close> returns the instances of one parent as a
  dict from frame number to frame.
\<close>

definition register_instance :: "nat \<Rightarrow> world \<Rightarrow> world" where
  "register_instance a w =
     (case (sample_id (heap w ! a), frame_number (heap w ! a)) of
        (Some sid, Some n) \<Rightarrow> w\<lparr>instances := AList.update (sid, n) a (instances w)\<rparr>
      | _ \<Rightarrow> w)"

definition get_instances :: "nat option \<Rightarrow> world \<Rightarrow> (int \<times> nat) list" where
  "get_instances sid w =
     map (\<lambda>((i, n), a). (n, a)) (filter (\<lambda>((i, n), a). Some i = sid) (instances w))"

text \<open>
  Modelled from the spec: \<open>Frame()\<close> and \<open>Frame(frame_number=n)\<close> create an empty
  transient record; \<open>copy()\<close> clones a record into a transient one.
\<close>

definition empty_frame :: "int option \<Rightarrow> frame" where
  "empty_frame n =
     \<lparr>kind = Frame, doc_id = None, in_dataset = False, sample_id = None,
      frame_number = n, field_bag = [], selected_fields = None, excluded_fields = None,
      filtered_fields = None\<rparr>"

definition copy :: "frame \<Rightarrow> frame" where
  "copy f =
     \<lparr>kind = Frame, doc_id = None, in_dataset = False, sample_id = None,
      frame_number = frame_number f, field_bag = field_bag f, selected_fields = None,
      excluded_fields = None, filtered_fields = None\<rparr>"

text \<open>
  Modelled from the spec: \<open>doc.set_field(field, value, create)\<close> on a dataset document
  writes the field, expanding the frame schema by an unknown field when \<open>create\<close> holds
  and failing otherwise.
\<close>

definition doc_set_field ::
  "string \<Rightarrow> pyval \<Rightarrow> bool \<Rightarrow> (string \<times> pyval) list \<times> string list
     \<Rightarrow> ((string \<times> pyval) list \<times> string list) result" where
  "doc_set_field field v create ds =
     (case ds of (bag, sch) \<Rightarrow>
        if field \<in> set sch then Ok (AList.update field v bag, sch)
        else if create then Ok (AList.update field v bag, sch @ [field])
        else Raise (ValueError field))"

text \<open>The loop \<open>for field, value in frame.iter_fields(): doc.set_field(...)\<close>.\<close>

fun set_fields ::
  "(string \<times> pyval) list \<Rightarrow> bool \<Rightarrow> (string \<times> pyval) list \<times> string list
     \<Rightarrow> ((string \<times> pyval) list \<times> string list) result \<times> string list" where
  "set_fields [] create (bag, sch) = (Ok (bag, sch), sch)"
| "set_fields ((field, v) # rest) create (bag, sch) =
     (case doc_set_field field v create (bag, sch) of
        Raise e \<Rightarrow> (Raise e, sch)
      | Ok (bag', sch') \<Rightarrow> set_fields rest create (bag', sch'))"

subsection \<open>The store-facing queries of \<open>Frames\<close>\<close>

definition of_sample :: "nat option \<Rightarrow> stored \<Rightarrow> bool" where
  "of_sample sid d = (Some (st_sample_id d) = sid)"

definition as_dict :: "stored \<Rightarrow> mdict" where
  "as_dict d =
     \<lparr>md_id = Some (st_id d), md_sample_id = Some (st_sample_id d),
      md_frame_number = Some (st_frame_number d), md_fields = st_fields d\<rparr>"

text \<open>\<open>_get_frame_db\<close>: \<open>find_one\<close> on parent and frame number.\<close>

definition get_frame_db :: "int \<Rightarrow> world \<Rightarrow> frames \<Rightarrow> stored option" where
  "get_frame_db n w s =
     find (\<lambda>d. of_sample (sample_oid (sample s)) d \<and> st_frame_number d = n) (collection w)"

text \<open>\<open>_get_frame_numbers_db\<close>: match on the parent, push every frame number.\<close>

definition get_frame_numbers_db :: "world \<Rightarrow> frames \<Rightarrow> int set" where
  "get_frame_numbers_db w s =
     set (map st_frame_number (filter (of_sample (sample_oid (sample s))) (collection w)))"

text \<open>\<open>_iter_frames_db\<close>: match on the parent, sort by frame number, ascending.\<close>

definition iter_frames_db :: "world \<Rightarrow> frames \<Rightarrow> stored list" where
  "iter_frames_db w s =
     sort_key st_frame_number (filter (of_sample (sample_oid (sample s))) (collection w))"

text \<open>
  \<open>_make_frame\<close>: \<open>Frame.from_doc\<close> of the dataset document made from \<open>d\<close>. Modelled from
  the spec: the bag is materialized into a record, which joins the live instances.
\<close>

definition from_doc :: "mdict \<Rightarrow> frame" where
  "from_doc d =
     \<lparr>kind = Frame, doc_id = md_id d, in_dataset = True, sample_id = md_sample_id d,
      frame_number = md_frame_number d, field_bag = md_fields d, selected_fields = None,
      excluded_fields = None, filtered_fields = None\<rparr>"

definition make_frame :: "mdict \<Rightarrow> world \<Rightarrow> nat \<times> world" where
  "make_frame d w = (case alloc (from_doc d) w of (a, w') \<Rightarrow> (a, register_instance a w'))"

text \<open>
  \<open>_set_replacement\<close>: \<open>self._replacements[frame.frame_number] = frame\<close>. Every caller
  has set the frame number of the frame before, so the last branch is not reached.
\<close>

definition set_replacement :: "nat \<Rightarrow> world \<Rightarrow> 'a frames_scheme \<Rightarrow> 'a frames_scheme" where
  "set_replacement a w s =
     (case frame_number (heap w ! a) of
        Some n \<Rightarrow> s\<lparr>replacements := AList.update n a (replacements s)\<rparr>
      | None \<Rightarrow> s)"

subsection \<open>Point operations\<close>

text \<open>\<open>__getitem__\<close>\<close>

definition getitem :: "pyval \<Rightarrow> world \<Rightarrow> frames \<Rightarrow> nat result \<times> world \<times> frames" where
  "getitem k w s =
     (case validate_frame_number k of
        Raise e \<Rightarrow> (Raise e, w, s)
      | Ok n \<Rightarrow>
          (case map_of (replacements s) n of
             Some a \<Rightarrow> (Ok a, w, s)
           | None \<Rightarrow>
               if \<not> in_db s then
                 (case alloc (empty_frame (Some n)) w of
                    (a, w') \<Rightarrow> (Ok a, w', set_replacement a w' s))
               else
                 (let d = (if delete_all s \<or> in_deletes n (delete_frames s) then None
                           else get_frame_db n w s);
                      d' = (case d of
                              None \<Rightarrow> \<lparr>md_id = None, md_sample_id = sample_oid (sample s),
                                       md_frame_number = Some n, md_fields = []\<rparr>
                            | Some x \<Rightarrow> as_dict x)
                  in case make_frame d' w of
                       (a, w') \<Rightarrow> (Ok a, w', set_replacement a w' s))))"

text \<open>
  \<open>__delitem__\<close>: no validation. \<open>self._replacements.pop(frame_number, None)\<close> hashes
  the key first, so an unhashable key raises \<open>TypeError\<close> there; the keys of
  \<open>_replacements\<close> are frame numbers, so a key that is equal to no integer finds
  nothing.
\<close>

definition pop_key :: "pyval \<Rightarrow> (int \<times> nat) list \<Rightarrow> (int \<times> nat) list" where
  "pop_key k d = (case key_int k of Some n \<Rightarrow> AList.delete n d | None \<Rightarrow> d)"

definition delitem :: "pyval \<Rightarrow> frames \<Rightarrow> unit result \<times> frames" where
  "delitem k s =
     (if \<not> hashable k then (Raise TypeError, s)
      else
        (let s' = s\<lparr>replacements := pop_key k (replacements s)\<rparr>
         in if \<not> in_db s' then (Ok (), s')
            else (Ok (), s'\<lparr>delete_frames := set_add k (delete_frames s')\<rparr>)))"

text \<open>\<open>add_frame\<close> (and \<open>__setitem__\<close>, which calls it with \<open>expand_schema=True\<close>).\<close>

definition add_frame ::
  "pyval \<Rightarrow> nat \<Rightarrow> bool \<Rightarrow> world \<Rightarrow> frames \<Rightarrow> unit result \<times> world \<times> frames" where
  "add_frame k a expand_schema w s =
     (case validate_frame_number k of
        Raise e \<Rightarrow> (Raise e, w, s)
      | Ok n \<Rightarrow>
          if kind (heap w ! a) \<noteq> Frame \<and> kind (heap w ! a) \<noteq> FrameView then
            (Raise (ValueError ''Expected a Frame or FrameView''), w, s)
          else if in_db s then
            (case (if frame_in_db (heap w ! a) then alloc (empty_frame None) w else (a, w)) of
               (t, w1) \<Rightarrow>
                 (case set_fields (field_bag (heap w ! a)) expand_schema ([], schema w1) of
                    (Raise e, sch) \<Rightarrow> (Raise e, w1\<lparr>schema := sch\<rparr>, s)
                  | (Ok (bag, sch'), sch) \<Rightarrow>
                      (let w2 = w1\<lparr>schema := sch,
                                    heap := (heap w1)[t := (heap w1 ! t)
                                      \<lparr>doc_id := None, in_dataset := True,
                                       sample_id := sample_oid (sample s),
                                       frame_number := Some n, field_bag := bag\<rparr>]\<rparr>;
                           w3 = register_instance t w2
                       in (Ok (), w3, set_replacement t w3 s))))
          else
            (case (if frame_in_db (heap w ! a) then alloc (copy (heap w ! a)) w else (a, w)) of
               (t, w1) \<Rightarrow>
                 (let w2 = w1\<lparr>heap := (heap w1)[t := (heap w1 ! t)\<lparr>frame_number := Some n\<rparr>]\<rparr>
                  in (Ok (), w2, set_replacement t w2 s))))"

definition setitem :: "pyval \<Rightarrow> nat \<Rightarrow> world \<Rightarrow> frames \<Rightarrow> unit result \<times> world \<times> frames" where
  "setitem k a w s = add_frame k a True w s"

text \<open>\<open>clear\<close>\<close>

definition clear :: "frames \<Rightarrow> frames" where
  "clear s =
     (let s' = s\<lparr>replacements := []\<rparr>
      in if \<not> in_db s' then s'
         else s'\<lparr>delete_all := True, delete_frames := []\<rparr>)"

text \<open>\<open>_get_frame_numbers\<close>, and \<open>__len__\<close>, \<open>__contains__\<close>, \<open>keys\<close> on top of it.\<close>

definition get_frame_numbers :: "world \<Rightarrow> frames \<Rightarrow> int set" where
  "get_frame_numbers w s =
     (let frame_numbers = set (map fst (replacements s))
      in if \<not> in_db s \<or> delete_all s then frame_numbers
         else {n \<in> frame_numbers \<union> get_frame_numbers_db w s. \<not> in_deletes n (delete_frames s)})"

definition len :: "world \<Rightarrow> frames \<Rightarrow> nat" where
  "len w s = card (get_frame_numbers w s)"

definition contains :: "pyval \<Rightarrow> world \<Rightarrow> frames \<Rightarrow> bool result" where
  "contains k w s =
     (if \<not> hashable k then Raise TypeError
      else Ok (case key_int k of Some n \<Rightarrow> n \<in> get_frame_numbers w s | None \<Rightarrow> False))"

definition keys :: "world \<Rightarrow> frames \<Rightarrow> int list" where
  "keys w s = sorted_list_of_set (get_frame_numbers w s)"

subsection \<open>Ordered iteration\<close>

text \<open>
  One round of the \<open>while True\<close> loop of \<open>_iter_frames\<close>, up to the \<open>yield\<close>: the frames
  yielded at the cursor \<open>fn\<close> (the local \<open>frame_number\<close> of the source), none or
  one. \<open>results\<close> is the store cursor: its head is the current \<open>d\<close>, and it is empty
  exactly when \<open>db_done\<close> holds.
\<close>

definition iter_yield ::
  "int \<Rightarrow> bool \<Rightarrow> stored list \<Rightarrow> world \<Rightarrow> frames \<Rightarrow> nat list \<times> world \<times> frames" where
  "iter_yield fn repl_done results w s =
     (case (if repl_done then None else map_of (replacements s) fn) of
        Some a \<Rightarrow> ([a], w, s)
      | None \<Rightarrow>
          (case results of
             [] \<Rightarrow> ([], w, s)
           | d # rest \<Rightarrow>
               if fn = st_frame_number d
                  \<and> \<not> in_deletes fn (delete_frames s) then
                 (case make_frame (as_dict d) w of
                    (a, w') \<Rightarrow> ([a], w', set_replacement a w' s))
               else ([], w, s)))"

text \<open>
  The loop itself. After the yield the cursor moves on by one, \<open>repl_done\<close> is
  recomputed while it is false, and the store cursor skips the documents below the
  new cursor.
\<close>

function iter_loop ::
  "int \<Rightarrow> int \<Rightarrow> bool \<Rightarrow> stored list \<Rightarrow> world \<Rightarrow> frames \<Rightarrow> nat list \<times> world \<times> frames" where
  "iter_loop max_repl_fn fn repl_done results w s =
     (if repl_done \<and> results = [] then ([], w, s)
      else
        (case iter_yield fn repl_done results w s of
           (ys, w1, s1) \<Rightarrow>
             (case iter_loop max_repl_fn (fn + 1)
                     (if \<not> repl_done then max_repl_fn < fn + 1 else repl_done)
                     (if results \<noteq> []
                      then dropWhile (\<lambda>d. st_frame_number d < fn + 1) results
                      else results)
                     w1 s1 of
                (zs, w2, s2) \<Rightarrow> (ys @ zs, w2, s2))))"
  by pat_completeness auto

definition cursor_bound :: "int \<Rightarrow> stored list \<Rightarrow> nat" where
  "cursor_bound fn results =
     (if results = [] then 0
      else 1 + nat (Max (st_frame_number ` set results) + 1 - fn))"

definition loop_measure :: "int \<Rightarrow> int \<Rightarrow> bool \<Rightarrow> stored list \<Rightarrow> nat" where
  "loop_measure max_repl_fn fn repl_done results =
     (if repl_done then 0 else 1 + nat (max_repl_fn + 1 - fn))
     + cursor_bound fn results"

text \<open>
  The loop ends: the distance of the cursor to the largest pending key and to the
  largest key still under the store cursor shrinks in every round.
\<close>

lemma Max_dropWhile_le:
  assumes "dropWhile P rs \<noteq> []"
  shows "Max (st_frame_number ` set (dropWhile P rs)) \<le> Max (st_frame_number ` set rs)"
proof -
  have "set (dropWhile P rs) \<subseteq> set rs" by (auto dest: set_dropWhileD)
  then have "st_frame_number ` set (dropWhile P rs) \<subseteq> st_frame_number ` set rs" by blast
  moreover have "st_frame_number ` set (dropWhile P rs) \<noteq> {}" using assms by simp
  ultimately show ?thesis by (intro Max_mono) auto
qed

lemma cursor_bound_drop_less:
  assumes "rs \<noteq> []"
  shows "cursor_bound (n + 1) (dropWhile (\<lambda>d. st_frame_number d < n + 1) rs) < cursor_bound n rs"
proof (cases "dropWhile (\<lambda>d. st_frame_number d < n + 1) rs = []")
  case True
  then show ?thesis using assms unfolding cursor_bound_def by simp
next
  case False
  define ds where "ds = dropWhile (\<lambda>d. st_frame_number d < n + 1) rs"
  have ne: "ds \<noteq> []" using False by (simp add: ds_def)
  have le: "Max (st_frame_number ` set ds) \<le> Max (st_frame_number ` set rs)"
    unfolding ds_def by (rule Max_dropWhile_le[OF False])
  have "\<not> st_frame_number (hd ds) < n + 1"
    unfolding ds_def using False hd_dropWhile by blast
  moreover have "st_frame_number (hd ds) \<le> Max (st_frame_number ` set ds)"
    using ne by (intro Max_ge) auto
  ultimately have ge: "n + 1 \<le> Max (st_frame_number ` set ds)" by linarith
  have "cursor_bound (n + 1) ds < cursor_bound n rs"
    unfolding cursor_bound_def using ne assms le ge by (simp only: if_False)
  then show ?thesis by (simp only: ds_def)
qed

termination iter_loop
proof (relation "measure (\<lambda>(m, n, rd, rs, w, s). loop_measure m n rd rs)", goal_cases)
  case 1
  show ?case by simp
next
  case (2 m n rd rs w s x xa y)
  show ?case
  proof (cases "rs = []")
    case True
    then show ?thesis using 2 by (auto simp: loop_measure_def cursor_bound_def)
  next
    case False
    then show ?thesis
      using cursor_bound_drop_less[OF False, of n]
      by (auto simp: loop_measure_def)
  qed
qed

declare iter_loop.simps [simp del]

text \<open>
  \<open>_iter_frames\<close>, consumed to its end: the frames it yields, in order, and the state
  it leaves. On a transient parent, or under a pending delete-all, only the pending
  replacements are yielded, in key order.
\<close>

definition iter_frames :: "world \<Rightarrow> frames \<Rightarrow> nat list \<times> world \<times> frames" where
  "iter_frames w s =
     (if \<not> in_db s \<or> delete_all s then
        (map (\<lambda>n. the (map_of (replacements s) n)) (sort (map fst (replacements s))), w, s)
      else
        (case (if replacements s \<noteq> [] then (Max (set (map fst (replacements s))), False)
               else (- 1, True)) of
           (max_repl_fn, repl_done) \<Rightarrow>
             iter_loop max_repl_fn 1 repl_done (iter_frames_db w s) w s))"

text \<open>
  \<open>values\<close> yields the frames, \<open>items\<close> yields \<open>frame.frame_number, frame\<close>. The
  iteration only allocates, so a frame has at the end the frame number it had when it
  was yielded.
\<close>

definition frames_values :: "world \<Rightarrow> frames \<Rightarrow> nat list \<times> world \<times> frames" where
  "frames_values w s = iter_frames w s"

definition items :: "world \<Rightarrow> frames \<Rightarrow> (int option \<times> nat) list \<times> world \<times> frames" where
  "items w s =
     (case iter_frames w s of
        (as, w', s') \<Rightarrow> (map (\<lambda>a. (frame_number (heap w' ! a), a)) as, w', s'))"

subsection \<open>Facts about association lists and the store cursor\<close>

lemma set_update_subset: "set (AList.update k v al) \<subseteq> insert (k, v) (set al)"
  by (induction al) auto









text \<open>
  The pending replacements are keyed by the frame number of the frame they hold
  (\<open>_set_replacement\<close> stores a frame under \<open>frame.frame_number\<close>), and the frames are
  objects of the heap.
\<close>

definition pending_ok :: "world \<Rightarrow> frames \<Rightarrow> bool" where
  "pending_ok w s =
     (\<forall>(n, a) \<in> set (replacements s). a < length (heap w) \<and> frame_number (heap w ! a) = Some n)"



lemma make_frame_heap:
  "make_frame d w = (a, w') \<Longrightarrow> a = length (heap w) \<and> heap w' = heap w @ [from_doc d]"
  by (auto simp: make_frame_def alloc_def register_instance_def split: option.splits prod.splits)

lemma pending_ok_extend:
  assumes "pending_ok w s" "heap w' = heap w @ ext" "replacements s' = replacements s"
  shows "pending_ok w' s'"
  using assms unfolding pending_ok_def by (auto simp: nth_append)









text \<open>
  The scenario of the spec: the parent 7 has the stored frames 1, 3 and 5 (the
  collection also holds a frame of another parent), the frame \<open>R2\<close> is staged for key 2
  and key 3 is marked for deletion.
\<close>

definition scenario_store :: "stored list" where
  "scenario_store =
     [\<lparr>st_id = 10, st_sample_id = 7, st_frame_number = 5, st_fields = [(''label'', PStr ''five'')]\<rparr>,
      \<lparr>st_id = 11, st_sample_id = 7, st_frame_number = 1, st_fields = [(''label'', PStr ''one'')]\<rparr>,
      \<lparr>st_id = 12, st_sample_id = 8, st_frame_number = 2, st_fields = []\<rparr>,
      \<lparr>st_id = 13, st_sample_id = 7, st_frame_number = 3, st_fields = [(''label'', PStr ''three'')]\<rparr>]"

definition scenario_world :: world where
  "scenario_world =
     \<lparr>heap = [\<lparr>kind = Frame, doc_id = None, in_dataset = True, sample_id = Some 7,
               frame_number = Some 2, field_bag = [(''label'', PStr ''R2'')],
               selected_fields = None, excluded_fields = None, filtered_fields = None\<rparr>],
      collection = scenario_store, instances = [((7, 2), 0)], schema = [''label''],
      next_id = 14\<rparr>"

definition scenario_frames :: frames where
  "scenario_frames =
     \<lparr>sample = \<lparr>sample_oid = Some 7\<rparr>, replacements = [(2, 0)],
      delete_frames = [PInt 3], delete_all = False\<rparr>"

text \<open>
  A store-backed parent with nothing pending, over the same collection, and one new
  transient frame on the heap.
\<close>

definition fresh_world :: world where
  "fresh_world =
     \<lparr>heap = [empty_frame None], collection = scenario_store, instances = [],
      schema = [''label''], next_id = 14\<rparr>"

definition fresh_frames :: frames where
  "fresh_frames =
     \<lparr>sample = \<lparr>sample_oid = Some 7\<rparr>, replacements = [], delete_frames = [],
      delete_all = False\<rparr>"

text \<open>The sequence \<open>del frames[k]; frames[k] = frame\<close>.\<close>

definition del_then_set ::
  "pyval \<Rightarrow> nat \<Rightarrow> world \<Rightarrow> frames \<Rightarrow> unit result \<times> world \<times> frames" where
  "del_then_set k a w s = (case delitem k s of (_, s1) \<Rightarrow> setitem k a w s1)"

subsection \<open>Facts about lookup\<close>

lemma getitem_staged:
  "1 \<le> n \<Longrightarrow> map_of (replacements s) n = Some a \<Longrightarrow> getitem (PInt n) w s = (Ok a, w, s)"
  by (simp add: getitem_def validate_frame_number_def)

lemma set_replacement_lookup:
  "frame_number (heap w ! a) = Some n \<Longrightarrow> map_of (replacements (set_replacement a w s)) n = Some a"
  by (simp add: set_replacement_def update_conv')

lemma alloc_heap: "alloc f w = (a, w') \<Longrightarrow> a = length (heap w) \<and> heap w' = heap w @ [f]"
  by (auto simp: alloc_def)

lemma getitem_transient:
  assumes "1 \<le> n" "map_of (replacements s) n = None" "\<not> in_db s"
  shows "getitem (PInt n) w s =
     (Ok (length (heap w)), w\<lparr>heap := heap w @ [empty_frame (Some n)]\<rparr>,
      s\<lparr>replacements := AList.update n (length (heap w)) (replacements s)\<rparr>)"
  using assms
  by (simp add: getitem_def validate_frame_number_def alloc_def set_replacement_def empty_frame_def)

text \<open>The dictionary \<open>d\<close> that \<open>__getitem__\<close> materializes on a store-backed parent.\<close>

definition lookup_dict :: "int \<Rightarrow> world \<Rightarrow> frames \<Rightarrow> mdict" where
  "lookup_dict n w s =
     (case (if delete_all s \<or> in_deletes n (delete_frames s) then None
            else get_frame_db n w s) of
        None \<Rightarrow> \<lparr>md_id = None, md_sample_id = sample_oid (sample s),
                 md_frame_number = Some n, md_fields = []\<rparr>
      | Some x \<Rightarrow> as_dict x)"

lemma lookup_dict_frame_number: "md_frame_number (lookup_dict n w s) = Some n"
proof (cases "if delete_all s \<or> in_deletes n (delete_frames s) then None else get_frame_db n w s")
  case None
  then show ?thesis by (simp add: lookup_dict_def)
next
  case (Some x)
  then have "get_frame_db n w s = Some x" by (simp split: if_splits)
  then have "st_frame_number x = n" by (auto simp: get_frame_db_def find_Some_iff)
  then show ?thesis using Some by (simp add: lookup_dict_def as_dict_def)
qed

lemma getitem_stored:
  assumes "1 \<le> n" "map_of (replacements s) n = None" "in_db s"
    and "make_frame (lookup_dict n w s) w = (a, w')"
  shows "getitem (PInt n) w s = (Ok a, w', set_replacement a w' s)"
  using assms
  by (simp add: getitem_def validate_frame_number_def lookup_dict_def Let_def)

subsection \<open>The write operations of the store\<close>

text \<open>
  Modelled from the spec (section 6, the store-access surface; the store client is not
  part of the repository): bulk operations are unordered and best-effort, and whether
  one fails is the server's decision. A \<open>fault\<close> is what the server reports for one bulk
  operation: nothing, or the messages of its write errors, in order, with the
  documents it leaves in the collection (a partial application is possible).
\<close>

type_synonym fault = "(string list \<times> stored list) option"

record faults =
  delete_fault :: fault
  insert_fault :: fault
  replace_fault :: fault

definition no_faults :: faults where
  "no_faults = \<lparr>delete_fault = None, insert_fault = None, replace_fault = None\<rparr>"

text \<open>
  A dictionary becomes a document of the collection under the \<open>_id\<close> the store assigns;
  the two fields that \<^verbatim>\<open>odm/frame.py\<close> declares as required must be there.
\<close>

definition to_stored :: "nat \<Rightarrow> mdict \<Rightarrow> stored option" where
  "to_stored i d =
     (case (md_sample_id d, md_frame_number d) of
        (Some sid, Some n) \<Rightarrow>
          Some \<lparr>st_id = i, st_sample_id = sid, st_frame_number = n, st_fields = md_fields d\<rparr>
      | _ \<Rightarrow> None)"

text \<open>\<open>delete_many({"_sample_id": sid})\<close>\<close>

definition delete_many :: "nat option \<Rightarrow> world \<Rightarrow> world" where
  "delete_many sid w = w\<lparr>collection := filter (\<lambda>d. \<not> of_sample sid d) (collection w)\<rparr>"

text \<open>
  \<open>DeleteOne({"_sample_id": sid, "frame_number": k})\<close>: the first match goes. The store
  compares numbers by value, whatever their type, and a boolean with no number.
\<close>

definition store_int :: "pyval \<Rightarrow> int option" where
  "store_int k = (case k of PBool b \<Rightarrow> None | _ \<Rightarrow> key_int k)"

fun delete_one :: "nat option \<Rightarrow> pyval \<Rightarrow> stored list \<Rightarrow> stored list" where
  "delete_one sid k [] = []"
| "delete_one sid k (d # ds) =
     (if of_sample sid d \<and> Some (st_frame_number d) = store_int k then ds
      else d # delete_one sid k ds)"

definition bulk_delete ::
  "nat option \<Rightarrow> pyval list \<Rightarrow> fault \<Rightarrow> world \<Rightarrow> string list option \<times> world" where
  "bulk_delete sid ks flt w =
     (case flt of
        Some (errs, left) \<Rightarrow> (Some errs, w\<lparr>collection := left\<rparr>)
      | None \<Rightarrow> (None, w\<lparr>collection := fold (delete_one sid) ks (collection w)\<rparr>))"

text \<open>\<open>insert_many(dicts)\<close>: every dictionary gets the next free \<open>_id\<close>.\<close>

definition insert_many ::
  "mdict list \<Rightarrow> fault \<Rightarrow> world \<Rightarrow> (string list + nat list) \<times> world" where
  "insert_many dicts flt w =
     (case flt of
        Some (errs, left) \<Rightarrow> (Inl errs, w\<lparr>collection := left\<rparr>)
      | None \<Rightarrow>
          (let ids = [next_id w ..< next_id w + length dicts]
           in case those (map2 to_stored ids dicts) of
                None \<Rightarrow> (Inl [''missing required field''], w)
              | Some docs \<Rightarrow>
                  (Inr ids, w\<lparr>collection := collection w @ docs,
                              next_id := next_id w + length dicts\<rparr>)))"

text \<open>
  \<open>ReplaceOne({"frame_number": n, "_sample_id": sid}, doc, upsert=True)\<close>: the first
  match takes the new content and keeps its \<open>_id\<close>; without a match the document is
  inserted.
\<close>

fun replace_one :: "nat option \<Rightarrow> int \<Rightarrow> stored \<Rightarrow> stored list \<Rightarrow> stored list option" where
  "replace_one sid n r [] = None"
| "replace_one sid n r (d # ds) =
     (if of_sample sid d \<and> st_frame_number d = n then Some (r\<lparr>st_id := st_id d\<rparr> # ds)
      else map_option ((#) d) (replace_one sid n r ds))"

definition apply_replace :: "nat option \<Rightarrow> int \<times> stored \<Rightarrow> world \<Rightarrow> world" where
  "apply_replace sid op w =
     (case op of (n, r) \<Rightarrow>
        (case replace_one sid n r (collection w) of
           Some c \<Rightarrow> w\<lparr>collection := c\<rparr>
         | None \<Rightarrow> w\<lparr>collection := collection w @ [r\<lparr>st_id := next_id w\<rparr>],
                     next_id := next_id w + 1\<rparr>))"

definition bulk_replace ::
  "nat option \<Rightarrow> (int \<times> mdict) list \<Rightarrow> fault \<Rightarrow> world \<Rightarrow> string list option \<times> world" where
  "bulk_replace sid ops flt w =
     (case flt of
        Some (errs, left) \<Rightarrow> (Some errs, w\<lparr>collection := left\<rparr>)
      | None \<Rightarrow>
          (case those (map (\<lambda>(n, d). map_option (Pair n) (to_stored 0 d)) ops) of
             None \<Rightarrow> (Some [''missing required field''], w)
           | Some rs \<Rightarrow> (None, fold (apply_replace sid) rs w)))"

subsection \<open>The registry of live frames\<close>

text \<open>
  Modelled from the spec: \<open>Frame._reset_docs\<close> and \<open>Frame._reset_docs_for_sample\<close>
  (\<open>FrameSingleton\<close>, not part of the sources) invalidate the in-memory holders of the
  deleted records: the frame goes back to a transient backing document and leaves the
  registry.
\<close>

definition reset_backing_doc :: "frame \<Rightarrow> frame" where
  "reset_backing_doc f = f\<lparr>doc_id := None, in_dataset := False, sample_id := None\<rparr>"

definition reset_where :: "(nat \<times> int \<Rightarrow> bool) \<Rightarrow> world \<Rightarrow> world" where
  "reset_where P w =
     w\<lparr>heap := fold (\<lambda>(key, a) h. if P key then h[a := reset_backing_doc (h ! a)] else h)
                (instances w) (heap w),
       instances := filter (\<lambda>(key, a). \<not> P key) (instances w)\<rparr>"

definition reset_docs :: "nat option \<Rightarrow> world \<Rightarrow> world" where
  "reset_docs sid w = reset_where (\<lambda>(i, n). Some i = sid) w"

definition reset_docs_for_sample :: "nat option \<Rightarrow> pyval list \<Rightarrow> world \<Rightarrow> world" where
  "reset_docs_for_sample sid ks w = reset_where (\<lambda>(i, n). Some i = sid \<and> in_deletes n ks) w"

subsection \<open>Flush\<close>

text \<open>\<open>_save_deletions\<close>\<close>

definition save_deletions :: "faults \<Rightarrow> world \<Rightarrow> frames \<Rightarrow> unit result \<times> world \<times> frames" where
  "save_deletions flt w s =
     (case (if delete_all s then
              (reset_docs (sample_oid (sample s)) (delete_many (sample_oid (sample s)) w),
               s\<lparr>delete_all := False, delete_frames := []\<rparr>)
            else (w, s)) of
        (w1, s1) \<Rightarrow>
          if delete_frames s1 \<noteq> [] then
            (case bulk_delete (sample_oid (sample s)) (delete_frames s1) (delete_fault flt) w1 of
               (Some errs, w2) \<Rightarrow> (Raise (BulkWriteError errs), w2, s1)
             | (None, w2) \<Rightarrow>
                 (Ok (), reset_docs_for_sample (sample_oid (sample s)) (delete_frames s1) w2,
                  s1\<lparr>delete_frames := []\<rparr>))
          else (Ok (), w1, s1))"

text \<open>\<open>_make_dict\<close>: the frame as a dictionary, without \<open>_id\<close>, under the parent's id.\<close>

definition make_dict :: "frames \<Rightarrow> frame \<Rightarrow> mdict" where
  "make_dict s f =
     \<lparr>md_id = None, md_sample_id = sample_oid (sample s),
      md_frame_number = frame_number f, md_fields = field_bag f\<rparr>"

text \<open>Python's \<open>d.update(e)\<close>.\<close>

definition dict_update :: "('k \<times> 'v) list \<Rightarrow> ('k \<times> 'v) list \<Rightarrow> ('k \<times> 'v) list" where
  "dict_update d e = fold (\<lambda>(k, v). AList.update k v) e d"

text \<open>
  The first lines of \<open>_save_replacements\<close>: the dictionary \<open>replacements\<close> that is
  written, the live instances of the parent updated by the own pending replacements.
  When there are no live instances it is \<open>self._replacements\<close> itself.
\<close>

definition gather_replacements :: "bool \<Rightarrow> world \<Rightarrow> frames \<Rightarrow> (int \<times> nat) list" where
  "gather_replacements include_singletons w s =
     (let singletons = (if include_singletons then get_instances (sample_oid (sample s)) w
                        else [])
      in if singletons \<noteq> [] then dict_update singletons (replacements s)
         else replacements s)"

definition aliased :: "bool \<Rightarrow> world \<Rightarrow> frames \<Rightarrow> bool" where
  "aliased include_singletons w s =
     ((if include_singletons then get_instances (sample_oid (sample s)) w else []) = [])"

text \<open>
  After the insert, a frame on a transient backing document gets the dataset document
  made from its dictionary, any other frame only the new \<open>_id\<close>.
\<close>

definition bind_inserted :: "frames \<Rightarrow> nat \<times> nat \<Rightarrow> world \<Rightarrow> world" where
  "bind_inserted s p w =
     (case p of (a, i) \<Rightarrow>
        if \<not> in_dataset (heap w ! a) then
          register_instance a
            (w\<lparr>heap := (heap w)[a := (heap w ! a)
                \<lparr>doc_id := Some i, in_dataset := True, sample_id := sample_oid (sample s)\<rparr>]\<rparr>)
        else w\<lparr>heap := (heap w)[a := (heap w ! a)\<lparr>doc_id := Some i\<rparr>]\<rparr>)"

definition pop_frame :: "world \<Rightarrow> nat \<Rightarrow> (int \<times> nat) list \<Rightarrow> (int \<times> nat) list" where
  "pop_frame w a d = (case frame_number (heap w ! a) of Some n \<Rightarrow> AList.delete n d | None \<Rightarrow> d)"

text \<open>
  \<open>_save_replacements\<close>. The state it returns on a failure is the state at the
  \<open>raise\<close>: when \<open>replacements\<close> is \<open>self._replacements\<close> itself, the inserted frames
  have already been popped from it.
\<close>

definition save_replacements ::
  "bool \<Rightarrow> faults \<Rightarrow> world \<Rightarrow> frames \<Rightarrow> unit result \<times> world \<times> frames" where
  "save_replacements include_singletons flt w s =
     (let replacements0 = gather_replacements include_singletons w s;
          new_frames = filter (\<lambda>a. \<not> frame_in_db (heap w ! a)) (map snd replacements0)
      in if replacements0 = [] then (Ok (), w, s)
         else
           (case (if new_frames \<noteq> [] then
                    (case insert_many (map (\<lambda>a. make_dict s (heap w ! a)) new_frames)
                            (insert_fault flt) w of
                       (Inl errs, w1) \<Rightarrow>
                         (Some (case errs of [] \<Rightarrow> IndexError | msg # _ \<Rightarrow> ValueError msg),
                          w1, replacements0)
                     | (Inr ids, w1) \<Rightarrow>
                         (let w2 = fold (bind_inserted s) (zip new_frames ids) w1
                          in (None, w2, fold (pop_frame w2) new_frames replacements0)))
                  else (None, w, replacements0)) of
              (Some e, w2, replacements1) \<Rightarrow> (Raise e, w2, s)
            | (None, w2, replacements1) \<Rightarrow>
                if replacements1 \<noteq> [] then
                  (case bulk_replace (sample_oid (sample s))
                          (map (\<lambda>(n, a). (n, make_dict s (heap w2 ! a))) replacements1)
                          (replace_fault flt) w2 of
                     (Some errs, w3) \<Rightarrow>
                       (Raise (BulkWriteError errs), w3,
                        if aliased include_singletons w s
                        then s\<lparr>replacements := replacements1\<rparr> else s)
                   | (None, w3) \<Rightarrow> (Ok (), w3, s\<lparr>replacements := []\<rparr>))
                else (Ok (), w2, s\<lparr>replacements := []\<rparr>)))"

text \<open>\<open>save\<close>\<close>

definition save :: "faults \<Rightarrow> world \<Rightarrow> frames \<Rightarrow> unit result \<times> world \<times> frames" where
  "save flt w s =
     (if \<not> in_db s then (Ok (), w, s)
      else
        (case save_deletions flt w s of
           (Raise e, w1, s1) \<Rightarrow> (Raise e, w1, s1)
         | (Ok u, w1, s1) \<Rightarrow> save_replacements True flt w1 s1))"

subsection \<open>Facts about flush\<close>

text \<open>
  The bag that the loop over \<open>iter_fields()\<close> builds from an empty document, and the
  sequence \<open>clear(); frames[k] = frame; save()\<close>.
\<close>

definition copy_fields ::
  "(string \<times> pyval) list \<Rightarrow> (string \<times> pyval) list \<Rightarrow> (string \<times> pyval) list" where
  "copy_fields xs bag = fold (\<lambda>(field, v). AList.update field v) xs bag"

definition clear_set_save ::
  "pyval \<Rightarrow> nat \<Rightarrow> faults \<Rightarrow> world \<Rightarrow> frames \<Rightarrow> unit result \<times> world \<times> frames" where
  "clear_set_save k a flt w s =
     (case setitem k a w (clear s) of
        (Raise e, w1, s1) \<Rightarrow> (Raise e, w1, s1)
      | (Ok u, w1, s1) \<Rightarrow> save flt w1 s1)"

lemma set_fields_create:
  "\<exists>sch'. set_fields xs True (bag, sch) = (Ok (copy_fields xs bag, sch'), sch')"
proof (induction xs arbitrary: bag sch)
  case Nil
  then show ?case by (simp add: copy_fields_def)
next
  case (Cons x xs)
  obtain field v where x: "x = (field, v)" by (cases x)
  show ?case
    using Cons.IH[of "AList.update field v bag"]
    by (cases "field \<in> set sch") (auto simp: x doc_set_field_def copy_fields_def)
qed

lemma reset_fold_keeps:
  assumes "\<And>f. Q f \<Longrightarrow> Q (reset_backing_doc f)" and "Q (h ! b)"
  shows "Q (fold (\<lambda>(key, a) h. if P key then h[a := reset_backing_doc (h ! a)] else h) insts h ! b)"
  using assms(2)
proof (induction insts arbitrary: h)
  case Nil
  then show ?case by simp
next
  case (Cons x insts)
  obtain key a where x: "x = (key, a)" by (cases x)
  have "Q ((if P key then h[a := reset_backing_doc (h ! a)] else h) ! b)"
  proof (cases "P key \<and> a = b \<and> a < length h")
    case True
    then show ?thesis using assms(1)[OF Cons.prems] by simp
  next
    case False
    then show ?thesis using Cons.prems
      by (cases "a = b") (auto simp: list_update_beyond)
  qed
  then show ?case using Cons.IH by (simp add: x)
qed

lemma reset_where_simps:
  "collection (reset_where P w) = collection w"
  "next_id (reset_where P w) = next_id w"
  "schema (reset_where P w) = schema w"
  "instances (reset_where P w) = filter (\<lambda>(key, a). \<not> P key) (instances w)"
  by (simp_all add: reset_where_def)

lemma reset_where_keeps:
  assumes "\<And>f. Q f \<Longrightarrow> Q (reset_backing_doc f)" and "Q (heap w ! b)"
  shows "Q (heap (reset_where P w) ! b)"
  unfolding reset_where_def using reset_fold_keeps[of Q "heap w" b P "instances w", OF assms]
  by simp

lemma get_instances_reset_docs: "get_instances sid (reset_docs sid w) = []"
  by (auto simp: get_instances_def reset_docs_def reset_where_simps filter_empty_conv)

lemma reset_fold_length:
  "length (fold (\<lambda>(key, a) h. if P key then h[a := reset_backing_doc (h ! a)] else h) insts h)
     = length h"
  by (induction insts arbitrary: h) (auto split: prod.splits)

lemma reset_where_length: "length (heap (reset_where P w)) = length (heap w)"
  by (simp add: reset_where_def reset_fold_length)

lemma add_frame_stored:
  assumes "in_db s" and "1 \<le> k" and "a < length (heap w)"
    and "kind (heap w ! a) = Frame \<or> kind (heap w ! a) = FrameView"
  shows "\<exists>t w'. add_frame (PInt k) a True w s
            = (Ok (), w', s\<lparr>replacements := AList.update k t (replacements s)\<rparr>)
     \<and> t = (if frame_in_db (heap w ! a) then length (heap w) else a)
     \<and> t < length (heap w')
     \<and> frame_number (heap w' ! t) = Some k
     \<and> field_bag (heap w' ! t) = copy_fields (field_bag (heap w ! a)) []
     \<and> doc_id (heap w' ! t) = None
     \<and> sample_id (heap w' ! t) = sample_oid (sample s)
     \<and> collection w' = collection w \<and> next_id w' = next_id w
     \<and> (\<forall>b. b < length (heap w) \<and> b \<noteq> t \<longrightarrow> heap w' ! b = heap w ! b)
     \<and> length (heap w) \<le> length (heap w')
     \<and> instances w' = AList.update (the (sample_oid (sample s)), k) t (instances w)"
proof -
  obtain p where p: "sample_oid (sample s) = Some p"
    using assms(1) by (auto simp: in_db_def sample_in_db_def)
  define t where "t = (if frame_in_db (heap w ! a) then length (heap w) else a)"
  define w1 where "w1 = (if frame_in_db (heap w ! a) then w\<lparr>heap := heap w @ [empty_frame None]\<rparr> else w)"
  have al: "(if frame_in_db (heap w ! a) then alloc (empty_frame None) w else (a, w)) = (t, w1)"
    by (simp add: t_def w1_def alloc_def)
  have tl: "t < length (heap w1)" using assms(3) by (simp add: t_def w1_def)
  obtain sch' where sf: "set_fields (field_bag (heap w ! a)) True ([], schema w1)
      = (Ok (copy_fields (field_bag (heap w ! a)) [], sch'), sch')"
    using set_fields_create by blast
  define f' where "f' = (heap w1 ! t)\<lparr>doc_id := None, in_dataset := True,
       sample_id := sample_oid (sample s), frame_number := Some k,
       field_bag := copy_fields (field_bag (heap w ! a)) []\<rparr>"
  define w2 where "w2 = w1\<lparr>schema := sch', heap := (heap w1)[t := f']\<rparr>"
  define w3 where "w3 = register_instance t w2"
  have h2: "heap w2 ! t = f'" using tl by (simp add: w2_def)
  have h3: "heap w3 = heap w2"
    by (simp add: w3_def register_instance_def split: option.splits)
  have c3: "collection w3 = collection w" "next_id w3 = next_id w"
    by (simp_all add: w3_def w2_def w1_def register_instance_def split: option.splits)
  have fn3: "frame_number (heap w3 ! t) = Some k" using h2 h3 by (simp add: f'_def)
  have i3: "instances w3 = AList.update (the (sample_oid (sample s)), k) t (instances w)"
    using h2 by (simp add: w3_def register_instance_def f'_def p w2_def w1_def)
  have l3: "length (heap w) \<le> length (heap w3)" unfolding h3 by (simp add: w2_def w1_def)
  have sr: "set_replacement t w3 s = s\<lparr>replacements := AList.update k t (replacements s)\<rparr>"
    using fn3 by (simp add: set_replacement_def)
  have val: "validate_frame_number (PInt k) = Ok k"
    using assms(2) by (simp add: validate_frame_number_def)
  have kd: "\<not> (kind (heap w ! a) \<noteq> Frame \<and> kind (heap w ! a) \<noteq> FrameView)"
    using assms(4) by blast
  have res: "add_frame (PInt k) a True w s
      = (Ok (), w3, s\<lparr>replacements := AList.update k t (replacements s)\<rparr>)"
    unfolding add_frame_def val
    using kd assms(1) al sf sr
    by (simp add: Let_def w3_def w2_def f'_def)
  have others: "\<forall>b. b < length (heap w) \<and> b \<noteq> t \<longrightarrow> heap w3 ! b = heap w ! b"
    unfolding h3 by (auto simp: w2_def w1_def nth_append)
  have "t < length (heap w3)" using tl h3 by (simp add: w2_def)
  moreover have "field_bag (heap w3 ! t) = copy_fields (field_bag (heap w ! a)) []"
    "doc_id (heap w3 ! t) = None" "sample_id (heap w3 ! t) = sample_oid (sample s)"
    using h2 h3 by (simp_all add: f'_def)
  ultimately show ?thesis using res fn3 c3 others t_def i3 l3 by blast
qed

lemma save_deletions_delete_all:
  assumes "delete_all s"
  shows "save_deletions flt w s
     = (Ok (), reset_docs (sample_oid (sample s)) (delete_many (sample_oid (sample s)) w),
        s\<lparr>delete_all := False, delete_frames := []\<rparr>)"
  using assms by (simp add: save_deletions_def)

lemma reset_keeps_new:
  assumes "frame_number (heap w ! t) = Some k \<and> field_bag (heap w ! t) = bag \<and> doc_id (heap w ! t) = None"
  shows "frame_number (heap (reset_docs sid w) ! t) = Some k
      \<and> field_bag (heap (reset_docs sid w) ! t) = bag
      \<and> doc_id (heap (reset_docs sid w) ! t) = None"
  unfolding reset_docs_def
  by (rule reset_where_keeps[where Q = "\<lambda>f. frame_number f = Some k \<and> field_bag f = bag \<and> doc_id f = None"])
     (simp_all add: reset_backing_doc_def assms)

lemma save_single_new:
  assumes sid: "sample_oid (sample s) = Some p"
    and repl: "replacements s = [(k, t)]"
    and inst: "get_instances (Some p) w = []"
    and tl: "t < length (heap w)"
    and fr: "frame_number (heap w ! t) = Some k" "field_bag (heap w ! t) = bag"
      "doc_id (heap w ! t) = None"
    and nf: "insert_fault flt = None"
  shows "\<exists>w'. save_replacements True flt w s = (Ok (), w', s\<lparr>replacements := []\<rparr>)
     \<and> collection w' = collection w @
          [\<lparr>st_id = next_id w, st_sample_id = p, st_frame_number = k, st_fields = bag\<rparr>]"
proof -
  have g: "gather_replacements True w s = [(k, t)]"
    by (simp add: gather_replacements_def sid inst repl)
  have new: "\<not> frame_in_db (heap w ! t)" using fr(3) by (simp add: frame_in_db_def)
  define d where "d = \<lparr>st_id = next_id w, st_sample_id = p, st_frame_number = k, st_fields = bag\<rparr>"
  define w1 where "w1 = w\<lparr>collection := collection w @ [d], next_id := next_id w + 1\<rparr>"
  have ins: "insert_many [make_dict s (heap w ! t)] (insert_fault flt) w = (Inr [next_id w], w1)"
    by (simp add: insert_many_def nf make_dict_def sid fr to_stored_def w1_def d_def)
  define w2 where "w2 = bind_inserted s (t, next_id w) w1"
  have h1: "heap w1 = heap w" by (simp add: w1_def)
  have c2: "collection w2 = collection w1"
    by (simp add: w2_def bind_inserted_def register_instance_def split: option.splits)
  have fn2: "frame_number (heap w2 ! t) = Some k"
    using tl fr(1) h1
    by (simp add: w2_def bind_inserted_def register_instance_def split: option.splits)
  have pop: "pop_frame w2 t [(k, t)] = []" by (simp add: pop_frame_def fn2)
  have "save_replacements True flt w s = (Ok (), w2, s\<lparr>replacements := []\<rparr>)"
    unfolding save_replacements_def g
    using new ins pop by (simp add: Let_def w2_def)
  then show ?thesis using c2 by (auto simp: w1_def d_def)
qed

text \<open>The sequence \<open>frames[k]; save()\<close>, the server answering the bulk replace with \<open>flt\<close>.\<close>

definition get_then_save ::
  "pyval \<Rightarrow> fault \<Rightarrow> world \<Rightarrow> frames \<Rightarrow> unit result \<times> world \<times> frames" where
  "get_then_save k flt w s =
     (case getitem k w s of
        (Raise e, w1, s1) \<Rightarrow> (Raise e, w1, s1)
      | (Ok a, w1, s1) \<Rightarrow> save (no_faults\<lparr>replace_fault := flt\<rparr>) w1 s1)"

text \<open>The sequence \<open>frames[k] = frame; save()\<close>, the server answering the bulk insert with \<open>flt\<close>.\<close>

definition set_then_save ::
  "pyval \<Rightarrow> nat \<Rightarrow> fault \<Rightarrow> world \<Rightarrow> frames \<Rightarrow> unit result \<times> world \<times> frames" where
  "set_then_save k a flt w s =
     (case setitem k a w s of
        (Raise e, w1, s1) \<Rightarrow> (Raise e, w1, s1)
      | (Ok u, w1, s1) \<Rightarrow> save (no_faults\<lparr>insert_fault := flt\<rparr>) w1 s1)"

lemma map_of_dict_update: "map_of (dict_update d e) = map_of d ++ map_of (rev e)"
  unfolding dict_update_def
proof (induction e arbitrary: d)
  case Nil
  then show ?case by simp
next
  case (Cons x e)
  obtain k v where x: "x = (k, v)" by (cases x)
  have "map_of (AList.update k v d) ++ map_of (rev e) = map_of d ++ map_of (rev e @ [(k, v)])"
    by (auto simp: update_conv' map_add_def fun_eq_iff split: option.splits)
  then show ?case using Cons.IH[of "AList.update k v d"] by (simp add: x)
qed

lemma map_of_dict_update_own:
  assumes "distinct (map fst e)" and "map_of e n = Some a"
  shows "map_of (dict_update d e) n = Some a"
proof -
  have "map_of (rev e) = map_of e" using assms(1) by (simp add: map_of_inject_set distinct_rev rev_map[symmetric])
  then show ?thesis using assms(2) by (simp add: map_of_dict_update map_add_def)
qed

lemma save_deletions_ok:
  assumes "delete_fault flt = None"
  shows "\<exists>w1 s1. save_deletions flt w s = (Ok (), w1, s1)
     \<and> replacements s1 = replacements s \<and> sample s1 = sample s
     \<and> (\<not> frame_in_db (heap w ! b) \<longrightarrow> \<not> frame_in_db (heap w1 ! b))"
proof -
  have keep: "\<not> frame_in_db (heap (reset_where P v) ! b)" if "\<not> frame_in_db (heap v ! b)" for P v
    by (rule reset_where_keeps[where Q = "\<lambda>f. \<not> frame_in_db f"])
       (use that in \<open>simp_all add: reset_backing_doc_def frame_in_db_def\<close>)
  show ?thesis
  proof (cases "delete_all s")
    case True
    have "\<not> frame_in_db (heap (reset_docs (sample_oid (sample s)) (delete_many (sample_oid (sample s)) w)) ! b)"
      if "\<not> frame_in_db (heap w ! b)"
      unfolding reset_docs_def using that by (intro keep) (simp add: delete_many_def)
    then show ?thesis using True by (simp add: save_deletions_delete_all)
  next
    case False
    show ?thesis
    proof (cases "delete_frames s = []")
      case True
      then show ?thesis using False by (simp add: save_deletions_def)
    next
      case ne: False
      define w2 where "w2 = w\<lparr>collection := fold (delete_one (sample_oid (sample s))) (delete_frames s) (collection w)\<rparr>"
      have "\<not> frame_in_db (heap (reset_docs_for_sample (sample_oid (sample s)) (delete_frames s) w2) ! b)"
        if "\<not> frame_in_db (heap w ! b)"
        unfolding reset_docs_for_sample_def using that by (intro keep) (simp add: w2_def)
      then show ?thesis using False ne assms
        by (simp add: save_deletions_def bulk_delete_def w2_def)
    qed
  qed
qed

text \<open>
  The wrapped path: a failing bulk insert surfaces as one \<open>ValueError\<close> with the message
  of the first write error, and the pending replacements stay as they were.
\<close>

lemma save_insert_failure:
  assumes "in_db s" and "delete_fault flt = None"
    and "insert_fault flt = Some (msg # rest, left)"
    and "distinct (map fst (replacements s))"
    and "map_of (replacements s) n = Some a" and "\<not> frame_in_db (heap w ! a)"
  shows "\<exists>w' s'. save flt w s = (Raise (ValueError msg), w', s')
     \<and> replacements s' = replacements s"
proof -
  obtain w1 s1 where sd: "save_deletions flt w s = (Ok (), w1, s1)"
    and r1: "replacements s1 = replacements s"
    and new: "\<not> frame_in_db (heap w1 ! a)"
    using save_deletions_ok[OF assms(2), of w s a] assms(6) by blast
  define r0 where "r0 = gather_replacements True w1 s1"
  have "map_of r0 n = Some a"
    using assms(4,5) r1 map_of_dict_update_own[of "replacements s" n a]
    by (simp add: r0_def gather_replacements_def Let_def)
  then have mem: "a \<in> set (map snd r0)" by (force dest: map_of_SomeD)
  then have ne: "r0 \<noteq> []" by auto
  have nf: "filter (\<lambda>a. \<not> frame_in_db (heap w1 ! a)) (map snd r0) \<noteq> []"
    using mem new by (auto simp: filter_empty_conv)
  have "save_replacements True flt w1 s1 = (Raise (ValueError msg), w1\<lparr>collection := left\<rparr>, s1)"
    unfolding save_replacements_def r0_def[symmetric]
    using ne nf assms(3) by (simp add: Let_def insert_many_def)
  then have res: "save flt w s = (Raise (ValueError msg), w1\<lparr>collection := left\<rparr>, s1)"
    using assms(1) sd by (simp add: save_def)
  then show ?thesis using r1 by simp
qed






lemma fold_pop_frame_snd:
  "snd ` set (fold (pop_frame w) as d) \<subseteq> snd ` set d"
proof (induction as arbitrary: d)
  case Nil
  then show ?case by simp
next
  case (Cons a as)
  have "set (pop_frame w a d) \<subseteq> set d"
    by (auto simp: pop_frame_def AList.delete_eq split: option.splits)
  then have "snd ` set (pop_frame w a d) \<subseteq> snd ` set d" by blast
  then show ?case using Cons.IH[of "pop_frame w a d"] by auto
qed


text \<open>A replace on another key leaves a document in the collection.\<close>

lemma replace_one_keeps:
  assumes "replace_one sid n r c = Some c'" and "d \<in> set c" and "st_frame_number d \<noteq> n"
  shows "d \<in> set c'"
  using assms by (induction c arbitrary: c') (auto split: if_splits)

lemma apply_replace_keeps:
  assumes "d \<in> set (collection w)" and "st_frame_number d \<noteq> fst op"
  shows "d \<in> set (collection (apply_replace sid op w))"
  using assms replace_one_keeps[of sid "fst op" "snd op" "collection w" _ d]
  by (cases op) (auto simp: apply_replace_def split: option.splits)

lemma fold_apply_replace_keeps:
  assumes "d \<in> set (collection w)" and "st_frame_number d \<notin> fst ` set ops"
  shows "d \<in> set (collection (fold (apply_replace sid) ops w))"
  using assms
proof (induction ops arbitrary: w)
  case Nil
  then show ?case by simp
next
  case (Cons op ops)
  have "d \<in> set (collection (apply_replace sid op w))"
    using Cons.prems by (intro apply_replace_keeps) auto
  then show ?case using Cons.IH[of "apply_replace sid op w"] Cons.prems(2) by simp
qed

lemma dict_update_Nil [simp]: "dict_update d [] = d"
  by (simp add: dict_update_def)






text \<open>
  The registry is a dict: no key is filed twice. It holds frames of the heap, each one
  under its own frame number (\<open>_register_instance\<close> files a frame under its parent and
  its frame number).
\<close>

definition registry_ok :: "world \<Rightarrow> bool" where
  "registry_ok w =
     (distinct (map fst (instances w))
      \<and> (\<forall>((i, n), a) \<in> set (instances w).
            a < length (heap w) \<and> frame_number (heap w ! a) = Some n))"










text \<open>The live instances of one parent, under a well-formed registry.\<close>

lemma get_instances_ok:
  assumes "registry_ok w"
  shows "distinct (map fst (get_instances (Some p) w))"
    and "distinct (map snd (get_instances (Some p) w))"
    and "\<forall>(n, a)\<in>set (get_instances (Some p) w).
           a < length (heap w) \<and> frame_number (heap w ! a) = Some n"
proof -
  define xs where "xs = filter (\<lambda>((i, n), a). Some i = Some p) (instances w)"
  have r: "get_instances (Some p) w = map (\<lambda>((i, n), a). (n, a)) xs"
    by (simp add: get_instances_def xs_def)
  have d: "distinct (map fst xs)"
    using assms by (simp add: registry_ok_def xs_def distinct_map_filter)
  have fst_p: "\<forall>x\<in>set xs. fst (fst x) = p" by (auto simp: xs_def)
  have ok: "\<forall>((i, n), a)\<in>set xs. a < length (heap w) \<and> frame_number (heap w ! a) = Some n"
    using assms by (auto simp: registry_ok_def xs_def)
  have m1: "map fst (get_instances (Some p) w) = map (snd \<circ> fst) xs"
    by (simp add: r split_def comp_def)
  have "inj_on snd (set (map fst xs))"
  proof (rule inj_onI)
    fix x y assume "x \<in> set (map fst xs)" "y \<in> set (map fst xs)" "snd x = snd y"
    moreover from this have "fst x = p" "fst y = p" using fst_p by auto
    ultimately show "x = y" by (simp add: prod_eq_iff)
  qed
  then have "distinct (map snd (map fst xs))" using d by (subst distinct_map) simp
  then show "distinct (map fst (get_instances (Some p) w))" by (simp add: m1 comp_def)
  show ok': "\<forall>(n, a)\<in>set (get_instances (Some p) w).
           a < length (heap w) \<and> frame_number (heap w ! a) = Some n"
    using ok by (auto simp: r)
  have dx: "distinct xs" using d by (simp add: distinct_map)
  have "inj_on (\<lambda>((i, n), a). a) (set xs)"
  proof (rule inj_onI)
    fix x y assume x: "x \<in> set xs" and y: "y \<in> set xs"
      and e: "(\<lambda>((i, n), a). a) x = (\<lambda>((i, n), a). a) y"
    obtain i n a where xe: "x = ((i, n), a)" by (cases x) auto
    obtain j m b where ye: "y = ((j, m), b)" by (cases y) auto
    have "a = b" using e by (simp add: xe ye)
    moreover have "i = p" "j = p" using fst_p x y by (auto simp: xe ye)
    moreover have "frame_number (heap w ! a) = Some n" "frame_number (heap w ! b) = Some m"
      using ok x y by (auto simp: xe ye)
    ultimately have "fst x = fst y" by (simp add: xe ye)
    then show "x = y" using d x y by (meson distinct_map inj_onD)
  qed
  then have "distinct (map (\<lambda>((i, n), a). a) xs)" using dx by (simp add: distinct_map)
  moreover have "map snd (get_instances (Some p) w) = map (\<lambda>((i, n), a). a) xs"
    by (simp add: r split_def comp_def)
  ultimately show "distinct (map snd (get_instances (Some p) w))" by simp
qed






text \<open>The world of \<open>fresh_world\<close>, its one transient frame carrying a label.\<close>

definition edit_world :: world where
  "edit_world =
     \<lparr>heap = [\<lparr>kind = Frame, doc_id = None, in_dataset = False, sample_id = None,
               frame_number = None, field_bag = [(''label'', PStr ''A'')],
               selected_fields = None, excluded_fields = None, filtered_fields = None\<rparr>],
      collection = scenario_store, instances = [], schema = [''label''], next_id = 14\<rparr>"

subsection \<open>The frames of a sample view\<close>

text \<open>
  \<open>FramesView\<close> is a \<open>Frames\<close> with the restrictions of its view: the selected, excluded
  and filtered fields, and the two flags \<open>_needs_frames\<close> and \<open>_contains_all_fields\<close>.
\<close>

record frames_view = frames +
  view_selected_fields :: "string list option"
  view_excluded_fields :: "string list option"
  view_filtered_fields :: "string list option"
  needs_frames :: bool
  contains_all_fields :: bool

text \<open>
  \<open>FramesView._make_frame\<close>: a \<open>FrameView\<close> of the dataset document made from \<open>d\<close>, with
  the restrictions of the view. Modelled from the spec: the constructor (class
  \<open>DocumentView\<close> is not part of the sources) wraps the document in a new object; frame
  views are not singletons and are filed nowhere.
\<close>

definition view_make_frame :: "mdict \<Rightarrow> frames_view \<Rightarrow> world \<Rightarrow> nat \<times> world" where
  "view_make_frame d sv w =
     alloc \<lparr>kind = FrameView, doc_id = md_id d, in_dataset = True, sample_id = md_sample_id d,
            frame_number = md_frame_number d, field_bag = md_fields d,
            selected_fields = view_selected_fields sv,
            excluded_fields = view_excluded_fields sv,
            filtered_fields = view_filtered_fields sv\<rparr> w"

text \<open>
  Modelled from the spec: \<open>FrameView.set_field\<close> refuses a field outside the selected
  fields or among the excluded ones with \<open>FieldNotAccessible\<close>, and otherwise writes it
  to the document as \<open>doc.set_field\<close> does; the frame number is a default field, which
  no view excludes.
\<close>

definition accessible :: "frame \<Rightarrow> string \<Rightarrow> bool" where
  "accessible f field =
     ((case selected_fields f of None \<Rightarrow> True | Some sel \<Rightarrow> field \<in> set sel)
      \<and> (case excluded_fields f of None \<Rightarrow> True | Some ex \<Rightarrow> field \<notin> set ex))"

definition view_set_field ::
  "frame \<Rightarrow> string \<Rightarrow> pyval \<Rightarrow> bool \<Rightarrow> (string \<times> pyval) list \<times> string list
     \<Rightarrow> ((string \<times> pyval) list \<times> string list) result" where
  "view_set_field f field v create ds =
     (if \<not> accessible f field then Raise (FieldNotAccessible field)
      else doc_set_field field v create ds)"

text \<open>
  The loop \<open>for field, value in frame.iter_fields(): frame_view.set_field(...)\<close>, on the
  bag of the new frame view and the frame schema; at a failure the fields written so
  far stay in the bag.
\<close>

fun view_set_fields ::
  "frame \<Rightarrow> (string \<times> pyval) list \<Rightarrow> bool \<Rightarrow> (string \<times> pyval) list \<times> string list
     \<Rightarrow> unit result \<times> (string \<times> pyval) list \<times> string list" where
  "view_set_fields f [] create (bag, sch) = (Ok (), bag, sch)"
| "view_set_fields f ((field, v) # rest) create (bag, sch) =
     (case view_set_field f field v create (bag, sch) of
        Raise e \<Rightarrow> (Raise e, bag, sch)
      | Ok (bag', sch') \<Rightarrow> view_set_fields f rest create (bag', sch'))"

text \<open>\<open>FramesView.add_frame\<close>\<close>

definition view_add_frame ::
  "pyval \<Rightarrow> nat \<Rightarrow> bool \<Rightarrow> world \<Rightarrow> frames_view \<Rightarrow> unit result \<times> world \<times> frames_view" where
  "view_add_frame k a expand_schema w sv =
     (case validate_frame_number k of
        Raise e \<Rightarrow> (Raise e, w, sv)
      | Ok n \<Rightarrow>
          if kind (heap w ! a) \<noteq> Frame \<and> kind (heap w ! a) \<noteq> FrameView then
            (Raise (ValueError ''Expected a Frame or FrameView''), w, sv)
          else
            (case view_make_frame
                    \<lparr>md_id = None, md_sample_id = sample_oid (sample sv),
                     md_frame_number = None, md_fields = []\<rparr> sv w of
               (t, w1) \<Rightarrow>
                 (case view_set_fields (heap w1 ! t) (field_bag (heap w1 ! a)) expand_schema
                         (field_bag (heap w1 ! t), schema w1) of
                    (Raise e, bag, sch) \<Rightarrow>
                      (Raise e,
                       w1\<lparr>schema := sch,
                          heap := (heap w1)[t := (heap w1 ! t)\<lparr>field_bag := bag\<rparr>]\<rparr>, sv)
                  | (Ok u, bag, sch) \<Rightarrow>
                      (let w2 = w1\<lparr>schema := sch,
                                    heap := (heap w1)[t := (heap w1 ! t)
                                      \<lparr>frame_number := Some n, field_bag := bag\<rparr>]\<rparr>
                       in (Ok (), w2, set_replacement t w2 sv)))))"

text \<open>The frame view that \<open>FramesView.add_frame\<close> builds for the key \<open>n\<close> from the bag \<open>bag\<close>.\<close>

definition new_frame_view :: "frames_view \<Rightarrow> int \<Rightarrow> (string \<times> pyval) list \<Rightarrow> frame" where
  "new_frame_view sv n bag =
     \<lparr>kind = FrameView, doc_id = None, in_dataset = True, sample_id = sample_oid (sample sv),
      frame_number = Some n, field_bag = bag,
      selected_fields = view_selected_fields sv,
      excluded_fields = view_excluded_fields sv,
      filtered_fields = view_filtered_fields sv\<rparr>"

lemma view_set_fields_create:
  assumes "\<forall>field\<in>fst ` set xs. accessible f field"
  shows "\<exists>sch'. view_set_fields f xs True (bag, sch) = (Ok (), copy_fields xs bag, sch')"
  using assms
proof (induction xs arbitrary: bag sch)
  case Nil
  then show ?case by (simp add: copy_fields_def)
next
  case (Cons x xs)
  obtain field v where x: "x = (field, v)" by (cases x)
  have acc: "accessible f field" using Cons.prems by (simp add: x)
  have rest: "\<forall>field\<in>fst ` set xs. accessible f field" using Cons.prems by simp
  show ?case
    using Cons.IH[OF rest, of "AList.update field v bag"] acc
    by (cases "field \<in> set sch") (auto simp: x view_set_field_def doc_set_field_def copy_fields_def)
qed

lemma view_set_fields_ok:
  "view_set_fields f xs create (bag, sch) = (Ok u, bag', sch') \<Longrightarrow> bag' = copy_fields xs bag"
proof (induction xs arbitrary: bag sch)
  case Nil
  then show ?case by (simp add: copy_fields_def)
next
  case (Cons x xs)
  obtain field v where x: "x = (field, v)" by (cases x)
  from Cons.prems obtain b1 s1 where
    st: "view_set_field f field v create (bag, sch) = Ok (b1, s1)"
    and rest: "view_set_fields f xs create (b1, s1) = (Ok u, bag', sch')"
    by (auto simp: x split: result.splits)
  have "b1 = AList.update field v bag"
    using st by (auto simp: view_set_field_def doc_set_field_def split: if_splits)
  then show ?case using Cons.IH[OF rest] by (simp add: x copy_fields_def)
qed

lemma add_frame_transient:
  assumes "\<not> in_db s" and "1 \<le> n" and "a < length (heap w)"
    and "kind (heap w ! a) = Frame \<or> kind (heap w ! a) = FrameView"
    and "\<not> frame_in_db (heap w ! a)"
  shows "add_frame (PInt n) a True w s
     = (Ok (), w\<lparr>heap := (heap w)[a := (heap w ! a)\<lparr>frame_number := Some n\<rparr>]\<rparr>,
        s\<lparr>replacements := AList.update n a (replacements s)\<rparr>)"
proof -
  have kd: "\<not> (kind (heap w ! a) \<noteq> Frame \<and> kind (heap w ! a) \<noteq> FrameView)"
    using assms(4) by blast
  show ?thesis
    unfolding add_frame_def
    using assms(1,2,3,5) kd
    by (simp add: validate_frame_number_def Let_def set_replacement_def)
qed

text \<open>
  What \<open>FramesView.add_frame\<close> does, in every outcome: no object of the heap changes;
  at most one object is added; on a normal return the added object is the new frame
  view, staged under the key; the call returns normally when the key is valid, the
  frame of an accepted class, the schema may expand and every field of the frame is
  accessible in the view.
\<close>

lemma view_add_frame_effect:
  assumes "a < length (heap w)"
  shows "\<exists>r w' sv'. view_add_frame k a expand_schema w sv = (r, w', sv')
     \<and> (\<forall>b<length (heap w). heap w' ! b = heap w ! b)
     \<and> length (heap w') \<le> length (heap w) + 1
     \<and> collection w' = collection w \<and> instances w' = instances w
     \<and> (case r of
          Raise e \<Rightarrow> sv' = sv
        | Ok u \<Rightarrow>
            (\<exists>n. k = PInt n \<and> 1 \<le> n
               \<and> (kind (heap w ! a) = Frame \<or> kind (heap w ! a) = FrameView)
               \<and> heap w' = heap w
                   @ [new_frame_view sv n (copy_fields (field_bag (heap w ! a)) [])]
               \<and> sv' = sv\<lparr>replacements := AList.update n (length (heap w)) (replacements sv)\<rparr>))
     \<and> ((\<exists>n. k = PInt n \<and> 1 \<le> n)
          \<and> (kind (heap w ! a) = Frame \<or> kind (heap w ! a) = FrameView)
          \<and> expand_schema
          \<and> (\<forall>field\<in>fst ` set (field_bag (heap w ! a)).
                accessible (new_frame_view sv 0 []) field)
          \<longrightarrow> r = Ok ())"
proof (cases "validate_frame_number k")
  case (Raise e)
  then have "view_add_frame k a expand_schema w sv = (Raise e, w, sv)"
    by (simp add: view_add_frame_def)
  moreover have "\<not> (\<exists>n. k = PInt n \<and> 1 \<le> n)"
    using Raise by (auto simp: validate_frame_number_def)
  ultimately show ?thesis by simp
next
  case (Ok n)
  then have kn: "k = PInt n" "1 \<le> n"
    by (auto simp: validate_frame_number_def split: pyval.splits if_splits)
  show ?thesis
  proof (cases "kind (heap w ! a) \<noteq> Frame \<and> kind (heap w ! a) \<noteq> FrameView")
    case True
    then have "view_add_frame k a expand_schema w sv
        = (Raise (ValueError ''Expected a Frame or FrameView''), w, sv)"
      using Ok by (simp add: view_add_frame_def)
    then show ?thesis using True by auto
  next
    case False
    then have kd: "(kind (heap w ! a) \<noteq> Frame \<and> kind (heap w ! a) \<noteq> FrameView) = False"
      by simp
    note vk = \<open>validate_frame_number k = Ok n\<close>
    define t where "t = length (heap w)"
    define f0 where "f0 = \<lparr>kind = FrameView, doc_id = None, in_dataset = True,
        sample_id = sample_oid (sample sv), frame_number = None, field_bag = [],
        selected_fields = view_selected_fields sv, excluded_fields = view_excluded_fields sv,
        filtered_fields = view_filtered_fields sv\<rparr>"
    define w1 where "w1 = w\<lparr>heap := heap w @ [f0]\<rparr>"
    have mk: "view_make_frame \<lparr>md_id = None, md_sample_id = sample_oid (sample sv),
                     md_frame_number = None, md_fields = []\<rparr> sv w = (t, w1)"
      by (simp add: view_make_frame_def alloc_def t_def w1_def f0_def)
    have h1t: "heap w1 ! t = f0" by (simp add: w1_def t_def)
    have h1a: "heap w1 ! a = heap w ! a" using assms by (simp add: w1_def nth_append)
    have acc: "accessible f0 = accessible (new_frame_view sv 0 [])"
      by (simp add: fun_eq_iff accessible_def f0_def new_frame_view_def)
    obtain r bag sch where sf: "view_set_fields f0 (field_bag (heap w ! a)) expand_schema
        ([], schema w) = (r, bag, sch)"
      by (cases "view_set_fields f0 (field_bag (heap w ! a)) expand_schema ([], schema w)") auto
    have sf1: "view_set_fields (heap w1 ! t) (field_bag (heap w1 ! a)) expand_schema
        (field_bag (heap w1 ! t), schema w1) = (r, bag, sch)"
    proof -
      have "field_bag f0 = []" "schema w1 = schema w" by (simp_all add: f0_def w1_def)
      then show ?thesis unfolding h1t h1a using sf by simp
    qed
    show ?thesis
    proof (cases r)
      case (Raise e)
      define w' where "w' = w1\<lparr>schema := sch, heap := (heap w1)[t := (heap w1 ! t)\<lparr>field_bag := bag\<rparr>]\<rparr>"
      have res: "view_add_frame k a expand_schema w sv = (Raise e, w', sv)"
        unfolding view_add_frame_def vk kd using Raise by (simp add: mk sf1 w'_def)
      have keep: "\<forall>b<length (heap w). heap w' ! b = heap w ! b"
        by (simp add: w'_def w1_def t_def nth_append)
      have len: "length (heap w') \<le> length (heap w) + 1" by (simp add: w'_def w1_def)
      have ci: "collection w' = collection w" "instances w' = instances w"
        by (simp_all add: w'_def w1_def)
      have "\<not> (expand_schema
          \<and> (\<forall>field\<in>fst ` set (field_bag (heap w ! a)). accessible (new_frame_view sv 0 []) field))"
      proof
        assume c: "expand_schema
          \<and> (\<forall>field\<in>fst ` set (field_bag (heap w ! a)). accessible (new_frame_view sv 0 []) field)"
        then have "\<forall>field\<in>fst ` set (field_bag (heap w ! a)). accessible f0 field"
          using acc by simp
        from view_set_fields_create[OF this, of "[]" "schema w"] sf c Raise
        show False by auto
      qed
      then show ?thesis using res keep len ci Raise by auto
    next
      case (Ok u)
      have bag: "bag = copy_fields (field_bag (heap w ! a)) []"
        using sf Ok view_set_fields_ok by blast
      define w' where "w' = w1\<lparr>schema := sch,
          heap := (heap w1)[t := (heap w1 ! t)\<lparr>frame_number := Some n, field_bag := bag\<rparr>]\<rparr>"
      have hw': "heap w' = heap w @ [new_frame_view sv n (copy_fields (field_bag (heap w ! a)) [])]"
        by (simp add: w'_def w1_def t_def f0_def new_frame_view_def bag)
      have fnt: "frame_number (heap w' ! t) = Some n"
        by (simp add: hw' t_def new_frame_view_def)
      have sr: "set_replacement t w' sv = sv\<lparr>replacements := AList.update n t (replacements sv)\<rparr>"
        using fnt by (simp add: set_replacement_def)
      have res: "view_add_frame k a expand_schema w sv
          = (Ok (), w', sv\<lparr>replacements := AList.update n t (replacements sv)\<rparr>)"
        unfolding view_add_frame_def vk kd
        using Ok sr by (simp add: mk sf1 w'_def Let_def)
      have keep: "\<forall>b<length (heap w). heap w' ! b = heap w ! b"
        by (simp add: hw' nth_append)
      have len: "length (heap w') \<le> length (heap w) + 1" by (simp add: hw')
      have ci: "collection w' = collection w" "instances w' = instances w"
        by (simp_all add: w'_def w1_def)
      show ?thesis using res keep len ci kn False hw' by (auto simp: t_def)
    qed
  qed
qed

text \<open>A view with an excluded field, over the parent of \<open>fresh_frames\<close>.\<close>

definition fresh_view :: frames_view where
  "fresh_view =
     \<lparr>sample = \<lparr>sample_oid = Some 7\<rparr>, replacements = [], delete_frames = [],
      delete_all = False, view_selected_fields = None,
      view_excluded_fields = Some [''secret''], view_filtered_fields = None,
      needs_frames = True, contains_all_fields = False\<rparr>"

subsection \<open>Reload\<close>

text \<open>\<open>FramesView.reload\<close>: the three pieces of pending state are cleared, nothing else.\<close>

definition view_reload :: "world \<Rightarrow> frames_view \<Rightarrow> world \<times> frames_view" where
  "view_reload w sv = (w, sv\<lparr>delete_all := False, delete_frames := [], replacements := []\<rparr>)"

text \<open>
  \<open>Frame._reload_backing_doc\<close>: a frame that is not persisted is left alone; otherwise
  \<open>find_one\<close> on the parent and the frame number of the frame, and the document made
  from the result becomes the backing document. Modelled from the spec: making a
  document of no result (\<open>_frame_dict_to_doc(None)\<close>, not part of the sources) fails.
\<close>

definition reload_backing_doc :: "stored list \<Rightarrow> frame \<Rightarrow> frame result" where
  "reload_backing_doc c f =
     (if \<not> frame_in_db f then Ok f
      else
        (case find (\<lambda>d. Some (st_sample_id d) = sample_id f
                        \<and> Some (st_frame_number d) = frame_number f) c of
           None \<Rightarrow> Raise TypeError
         | Some d \<Rightarrow>
             Ok (f\<lparr>doc_id := md_id (as_dict d), in_dataset := True,
                   sample_id := md_sample_id (as_dict d),
                   frame_number := md_frame_number (as_dict d),
                   field_bag := md_fields (as_dict d)\<rparr>)))"

text \<open>
  Modelled from the spec: \<open>Frame._sync_docs_for_sample\<close> (\<open>FrameSingleton\<close>, not part of
  the sources) re-synchronizes the live frames of the parent against the store: a live
  frame whose frame number is among \<open>frame_numbers\<close> reloads its backing document, any
  other one is invalidated and leaves the registry. The hard mode re-derives the frame
  schema first, which the world holds as the store has it.
\<close>

fun sync_frames :: "int set \<Rightarrow> (int \<times> nat) list \<Rightarrow> world \<Rightarrow> unit result \<times> world" where
  "sync_frames fns [] w = (Ok (), w)"
| "sync_frames fns ((n, a) # rest) w =
     (if n \<in> fns then
        (case reload_backing_doc (collection w) (heap w ! a) of
           Raise e \<Rightarrow> (Raise e, w)
         | Ok f \<Rightarrow> sync_frames fns rest (w\<lparr>heap := (heap w)[a := f]\<rparr>))
      else sync_frames fns rest (w\<lparr>heap := (heap w)[a := reset_backing_doc (heap w ! a)]\<rparr>))"

definition sync_docs_for_sample ::
  "nat option \<Rightarrow> int set \<Rightarrow> bool \<Rightarrow> world \<Rightarrow> unit result \<times> world" where
  "sync_docs_for_sample sid fns hard w =
     (case sync_frames fns (get_instances sid w) w of
        (Raise e, w') \<Rightarrow> (Raise e, w')
      | (Ok u, w') \<Rightarrow>
          (Ok (), w'\<lparr>instances :=
                       filter (\<lambda>((i, n), a). \<not> (Some i = sid \<and> n \<notin> fns)) (instances w')\<rparr>))"

text \<open>\<open>Frames.reload\<close>\<close>

definition reload :: "bool \<Rightarrow> world \<Rightarrow> frames \<Rightarrow> unit result \<times> world \<times> frames" where
  "reload hard w s =
     (let s' = s\<lparr>delete_all := False, delete_frames := [], replacements := []\<rparr>
      in case sync_docs_for_sample (sample_oid (sample s')) (get_frame_numbers w s') hard w of
           (r, w') \<Rightarrow> (r, w', s'))"

text \<open>A persisted live frame is filed under the parent it belongs to.\<close>

definition registry_linked :: "world \<Rightarrow> bool" where
  "registry_linked w =
     (\<forall>((i, n), a) \<in> set (instances w).
        frame_in_db (heap w ! a) \<longrightarrow> sample_id (heap w ! a) = Some i)"

text \<open>The frame that a reload makes of the frame \<open>f\<close> and the stored document \<open>d\<close>.\<close>

definition reloaded :: "frame \<Rightarrow> stored \<Rightarrow> frame" where
  "reloaded f d =
     f\<lparr>doc_id := Some (st_id d), in_dataset := True, sample_id := Some (st_sample_id d),
       frame_number := Some (st_frame_number d), field_bag := st_fields d\<rparr>"

text \<open>
  The loop over the live frames: every frame is visited once, with the collection and
  the other frames as they were.
\<close>

lemma sync_frames_spec:
  assumes "distinct (map snd xs)"
    and "\<forall>(n, a)\<in>set xs. a < length (heap w)
            \<and> (n \<in> fns \<longrightarrow> (\<exists>f. reload_backing_doc (collection w) (heap w ! a) = Ok f))"
  shows "\<exists>w'. sync_frames fns xs w = (Ok (), w')
     \<and> collection w' = collection w \<and> instances w' = instances w
     \<and> length (heap w') = length (heap w)
     \<and> (\<forall>b. b \<notin> snd ` set xs \<longrightarrow> heap w' ! b = heap w ! b)
     \<and> (\<forall>(n, a)\<in>set xs.
           if n \<in> fns then reload_backing_doc (collection w) (heap w ! a) = Ok (heap w' ! a)
           else heap w' ! a = reset_backing_doc (heap w ! a))"
  using assms
proof (induction xs arbitrary: w)
  case Nil
  then show ?case by simp
next
  case (Cons x xs)
  obtain n a where x: "x = (n, a)" by (cases x)
  have al: "a < length (heap w)" using Cons.prems(2) by (simp add: x)
  have anot: "a \<notin> snd ` set xs" using Cons.prems(1) by (simp add: x)
  define g where "g = (if n \<in> fns
      then (case reload_backing_doc (collection w) (heap w ! a) of Ok f \<Rightarrow> f | Raise e \<Rightarrow> heap w ! a)
      else reset_backing_doc (heap w ! a))"
  define w1 where "w1 = w\<lparr>heap := (heap w)[a := g]\<rparr>"
  have step: "sync_frames fns (x # xs) w = sync_frames fns xs w1"
  proof (cases "n \<in> fns")
    case True
    then obtain f where f: "reload_backing_doc (collection w) (heap w ! a) = Ok f"
      using Cons.prems(2) by (auto simp: x)
    then show ?thesis using True by (simp add: x w1_def g_def)
  next
    case False
    then show ?thesis by (simp add: x w1_def g_def)
  qed
  have gprop: "if n \<in> fns then reload_backing_doc (collection w) (heap w ! a) = Ok g
      else g = reset_backing_doc (heap w ! a)"
  proof (cases "n \<in> fns")
    case True
    then obtain f where f: "reload_backing_doc (collection w) (heap w ! a) = Ok f"
      using Cons.prems(2) by (auto simp: x)
    then show ?thesis using True by (simp add: g_def)
  next
    case False
    then show ?thesis by (simp add: g_def)
  qed
  have same: "heap w1 ! b = heap w ! b" if "b \<noteq> a" for b using that by (simp add: w1_def)
  have c1: "collection w1 = collection w" "instances w1 = instances w"
    "length (heap w1) = length (heap w)" by (simp_all add: w1_def)
  have d: "distinct (map snd xs)" using Cons.prems(1) by simp
  have pre: "\<forall>(m, b)\<in>set xs. b < length (heap w1)
            \<and> (m \<in> fns \<longrightarrow> (\<exists>f. reload_backing_doc (collection w1) (heap w1 ! b) = Ok f))"
  proof (clarify)
    fix m b assume mb: "(m, b) \<in> set xs"
    then have "b \<noteq> a" using anot by force
    then show "b < length (heap w1)
            \<and> (m \<in> fns \<longrightarrow> (\<exists>f. reload_backing_doc (collection w1) (heap w1 ! b) = Ok f))"
      using Cons.prems(2) mb same[of b] c1 by auto
  qed
  obtain w' where r: "sync_frames fns xs w1 = (Ok (), w')"
    and c: "collection w' = collection w1" "instances w' = instances w1"
      "length (heap w') = length (heap w1)"
    and out: "\<forall>b. b \<notin> snd ` set xs \<longrightarrow> heap w' ! b = heap w1 ! b"
    and ins: "\<forall>(m, b)\<in>set xs.
           if m \<in> fns then reload_backing_doc (collection w1) (heap w1 ! b) = Ok (heap w' ! b)
           else heap w' ! b = reset_backing_doc (heap w1 ! b)"
    using Cons.IH[OF d pre] by blast
  have ha: "heap w' ! a = g" using out anot al by (simp add: w1_def)
  have "\<forall>(m, b)\<in>set (x # xs).
           if m \<in> fns then reload_backing_doc (collection w) (heap w ! b) = Ok (heap w' ! b)
           else heap w' ! b = reset_backing_doc (heap w ! b)"
  proof (clarify)
    fix m b assume "(m, b) \<in> set (x # xs)"
    then consider "(m, b) = (n, a)" | "(m, b) \<in> set xs" by (auto simp: x)
    then show "if m \<in> fns then reload_backing_doc (collection w) (heap w ! b) = Ok (heap w' ! b)
           else heap w' ! b = reset_backing_doc (heap w ! b)"
    proof cases
      case 1
      then show ?thesis using gprop ha by auto
    next
      case 2
      then have "b \<noteq> a" using anot by force
      then show ?thesis using ins 2 same[of b] c1 by auto
    qed
  qed
  moreover have "\<forall>b. b \<notin> snd ` set (x # xs) \<longrightarrow> heap w' ! b = heap w ! b"
    using out same by (auto simp: x)
  ultimately show ?case using step r c c1 by auto
qed

lemma reload_backing_doc_found:
  assumes "frame_in_db f" and "sample_id f = Some p" and "frame_number f = Some n"
    and "find (\<lambda>d. of_sample (Some p) d \<and> st_frame_number d = n) c = Some d"
  shows "reload_backing_doc c f = Ok (reloaded f d)"
proof -
  have "(\<lambda>d. Some (st_sample_id d) = sample_id f \<and> Some (st_frame_number d) = frame_number f)
      = (\<lambda>d. of_sample (Some p) d \<and> st_frame_number d = n)"
    using assms(2,3) by (auto simp: fun_eq_iff of_sample_def)
  then show ?thesis
    using assms(1,4) by (simp add: reload_backing_doc_def reloaded_def as_dict_def)
qed

text \<open>A persisted live frame, edited in memory, and a frame view of the same document.\<close>

definition live_world :: world where
  "live_world =
     \<lparr>heap = [\<lparr>kind = Frame, doc_id = Some 11, in_dataset = True, sample_id = Some 7,
               frame_number = Some 1, field_bag = [(''label'', PStr ''edited'')],
               selected_fields = None, excluded_fields = None, filtered_fields = None\<rparr>,
              \<lparr>kind = FrameView, doc_id = Some 11, in_dataset = True, sample_id = Some 7,
               frame_number = Some 1, field_bag = [(''label'', PStr ''edited'')],
               selected_fields = None, excluded_fields = Some [''secret''],
               filtered_fields = None\<rparr>],
      collection = scenario_store, instances = [((7, 1), 0)], schema = [''label''],
      next_id = 14\<rparr>"

section \<open>The claims\<close>



text \<open>
  Claim C2, evaluated on the code. On the store-backed parent 7 (stored frames 1, 3, 5,
  nothing pending), \<open>del frames[1]\<close> followed by \<open>frames[1] = frame\<close> stages the frame
  under key 1, and \<open>frames[1]\<close> returns it, and \<open>items()\<close> yields it; but
  \<open>_get_frame_numbers\<close> subtracts the pending deletes after it has added the pending
  keys, so key 1 is not in \<open>keys()\<close>, \<open>1 in frames\<close> is false and \<open>len\<close> is 2.
\<close>

theorem replacement_after_delete_not_member:
  "(case del_then_set (PInt 1) 0 fresh_world fresh_frames of
      (r, w, s) \<Rightarrow>
        (r, map_of (replacements s) 1, fst (getitem (PInt 1) w s), map fst (fst (items w s)),
         contains (PInt 1) w s, keys w s, len w s))
   = (Ok (), Some 0, Ok 0, [Some 1, Some 3, Some 5], Ok False, [3, 5], 2)"
  by code_simp




text \<open>
  Claim C4. On a store-backed parent, whatever the collection holds, the sequence
  \<open>clear(); frames[k] = frame; save()\<close> with a valid key and no failing insert returns
  normally and leaves exactly one document of this parent in the collection, with key
  \<open>k\<close> and the fields of the frame; the documents of other parents are as before, and
  nothing stays pending.
\<close>

theorem clear_set_save_only_key:
  assumes "in_db s" and "1 \<le> k" and "a < length (heap w)"
    and "kind (heap w ! a) = Frame \<or> kind (heap w ! a) = FrameView"
    and "insert_fault flt = None"
  shows "\<exists>w' s' d. clear_set_save (PInt k) a flt w s = (Ok (), w', s')
     \<and> filter (of_sample (sample_oid (sample s))) (collection w') = [d]
     \<and> st_frame_number d = k
     \<and> st_fields d = copy_fields (field_bag (heap w ! a)) []
     \<and> filter (\<lambda>d. \<not> of_sample (sample_oid (sample s)) d) (collection w')
         = filter (\<lambda>d. \<not> of_sample (sample_oid (sample s)) d) (collection w)
     \<and> replacements s' = [] \<and> delete_frames s' = [] \<and> \<not> delete_all s'"
proof -
  obtain p where p: "sample_oid (sample s) = Some p"
    using assms(1) by (auto simp: in_db_def sample_in_db_def)
  define bag where "bag = copy_fields (field_bag (heap w ! a)) []"
  define s1 where "s1 = s\<lparr>replacements := [], delete_all := True, delete_frames := []\<rparr>"
  have cl: "clear s = s1" using assms(1) by (simp add: clear_def s1_def in_db_def)
  have db1: "in_db s1" using assms(1) by (simp add: s1_def in_db_def)
  obtain t w1 where af: "add_frame (PInt k) a True w s1
        = (Ok (), w1, s1\<lparr>replacements := AList.update k t (replacements s1)\<rparr>)"
    and t: "t < length (heap w1)" "frame_number (heap w1 ! t) = Some k"
      "field_bag (heap w1 ! t) = bag" "doc_id (heap w1 ! t) = None"
    and c1: "collection w1 = collection w"
    using add_frame_stored[OF db1 assms(2) assms(3) assms(4)] unfolding bag_def by blast
  define s2 where "s2 = s1\<lparr>replacements := [(k, t)]\<rparr>"
  have af': "setitem (PInt k) a w (clear s) = (Ok (), w1, s2)"
    using af by (simp add: setitem_def cl s2_def s1_def)
  define w2 where "w2 = reset_docs (Some p) (delete_many (Some p) w1)"
  define s3 where "s3 = s2\<lparr>delete_all := False, delete_frames := []\<rparr>"
  have sd: "save_deletions flt w1 s2 = (Ok (), w2, s3)"
    using save_deletions_delete_all[of s2 flt w1]
    by (simp add: s2_def s1_def p w2_def s3_def)
  have hdm: "heap (delete_many (Some p) w1) = heap w1" by (simp add: delete_many_def)
  have t2: "frame_number (heap w2 ! t) = Some k \<and> field_bag (heap w2 ! t) = bag
      \<and> doc_id (heap w2 ! t) = None"
    unfolding w2_def by (rule reset_keeps_new) (simp add: hdm t)
  have tl2: "t < length (heap w2)"
    using t(1) by (simp add: w2_def reset_docs_def reset_where_length hdm)
  have i2: "get_instances (Some p) w2 = []" unfolding w2_def by (rule get_instances_reset_docs)
  have c2: "collection w2 = filter (\<lambda>d. \<not> of_sample (Some p) d) (collection w)"
    by (simp add: w2_def reset_docs_def reset_where_simps delete_many_def c1)
  have p3: "sample_oid (sample s3) = Some p" by (simp add: s3_def s2_def s1_def p)
  have r3: "replacements s3 = [(k, t)]" by (simp add: s3_def s2_def)
  obtain w3 where sv: "save_replacements True flt w2 s3 = (Ok (), w3, s3\<lparr>replacements := []\<rparr>)"
    and c3: "collection w3 = collection w2 @
          [\<lparr>st_id = next_id w2, st_sample_id = p, st_frame_number = k, st_fields = bag\<rparr>]"
    using save_single_new[OF p3 r3 i2 tl2 t2[THEN conjunct1] t2[THEN conjunct2, THEN conjunct1]
        t2[THEN conjunct2, THEN conjunct2] assms(5)] by blast
  have db2: "in_db s2" using assms(1) by (simp add: s2_def s1_def in_db_def)
  have "save flt w1 s2 = (Ok (), w3, s3\<lparr>replacements := []\<rparr>)"
    using db2 sd sv by (simp add: save_def)
  then have res: "clear_set_save (PInt k) a flt w s = (Ok (), w3, s3\<lparr>replacements := []\<rparr>)"
    using af' by (simp add: clear_set_save_def)
  define d where "d = \<lparr>st_id = next_id w2, st_sample_id = p, st_frame_number = k, st_fields = bag\<rparr>"
  have f1: "filter (of_sample (Some p)) (collection w3) = [d]"
    unfolding c3 c2 d_def by (simp add: of_sample_def)
  have f2: "filter (\<lambda>d. \<not> of_sample (Some p) d) (collection w3)
         = filter (\<lambda>d. \<not> of_sample (Some p) d) (collection w)"
    unfolding c3 c2 by (simp add: of_sample_def)
  have "st_frame_number d = k" "st_fields d = bag" by (simp_all add: d_def)
  moreover have "replacements (s3\<lparr>replacements := []\<rparr>) = []"
    "delete_frames (s3\<lparr>replacements := []\<rparr>) = []" "\<not> delete_all (s3\<lparr>replacements := []\<rparr>)"
    by (simp_all add: s3_def)
  ultimately show ?thesis using res f1 f2 unfolding p bag_def by blast
qed

theorem clear_set_save_only_key_witness:
  "in_db scenario_frames \<and> (1::int) \<le> 4 \<and> 0 < length (heap scenario_world)
   \<and> insert_fault no_faults = None
   \<and> (\<exists>w' s' d. clear_set_save (PInt 4) 0 no_faults scenario_world scenario_frames = (Ok (), w', s')
        \<and> filter (of_sample (sample_oid (sample scenario_frames))) (collection w') = [d]
        \<and> st_frame_number d = 4)
   \<and> collection (fst (snd (clear_set_save (PInt 4) 0 no_faults scenario_world scenario_frames)))
       = [\<lparr>st_id = 12, st_sample_id = 8, st_frame_number = 2, st_fields = []\<rparr>,
          \<lparr>st_id = 14, st_sample_id = 7, st_frame_number = 4,
            st_fields = [(''label'', PStr ''R2'')]\<rparr>]"
proof -
  have h1: "in_db scenario_frames" by code_simp
  have h2: "(1::int) \<le> 4" by simp
  have h3: "0 < length (heap scenario_world)" by code_simp
  have h4: "kind (heap scenario_world ! 0) = Frame \<or> kind (heap scenario_world ! 0) = FrameView"
    by code_simp
  have h5: "insert_fault no_faults = None" by code_simp
  have ev: "collection (fst (snd (clear_set_save (PInt 4) 0 no_faults scenario_world scenario_frames)))
       = [\<lparr>st_id = 12, st_sample_id = 8, st_frame_number = 2, st_fields = []\<rparr>,
          \<lparr>st_id = 14, st_sample_id = 7, st_frame_number = 4,
            st_fields = [(''label'', PStr ''R2'')]\<rparr>]"
    by code_simp
  from clear_set_save_only_key[OF h1 h2 h3 h4 h5]
  have "\<exists>w' s' d. clear_set_save (PInt 4) 0 no_faults scenario_world scenario_frames = (Ok (), w', s')
        \<and> filter (of_sample (sample_oid (sample scenario_frames))) (collection w') = [d]
        \<and> st_frame_number d = 4" by blast
  then show ?thesis using h1 h2 h3 h5 ev by blast
qed

text \<open>
  Claim C5, evaluated on the code. On the store-backed parent 7, \<open>frames[3]\<close> stages the
  stored frame 3 and \<open>save()\<close> issues a bulk replace; when the server answers it with the
  write errors E1 and E2, \<open>save()\<close> raises the \<open>BulkWriteError\<close> of the store as it is, not
  the \<open>ValueError\<close> that carries the message of the first write error (the pending
  replacement stays). The bulk insert, some lines above in the same function, is
  wrapped: staging a new frame and failing the insert with the same errors raises
  \<open>ValueError\<close> with E1.
\<close>

theorem replace_failure_not_wrapped:
  "fst (get_then_save (PInt 3) (Some ([''E1'', ''E2''], scenario_store)) fresh_world fresh_frames)
     = Raise (BulkWriteError [''E1'', ''E2''])
   \<and> fst (get_then_save (PInt 3) (Some ([''E1'', ''E2''], scenario_store)) fresh_world fresh_frames)
     \<noteq> Raise (ValueError ''E1'')
   \<and> replacements
        (snd (snd (get_then_save (PInt 3) (Some ([''E1'', ''E2''], scenario_store))
                     fresh_world fresh_frames))) = [(3, 1)]
   \<and> fst (set_then_save (PInt 4) 0 (Some ([''E1'', ''E2''], scenario_store)) fresh_world fresh_frames)
     = Raise (ValueError ''E1'')
   \<and> replacements
        (snd (snd (set_then_save (PInt 4) 0 (Some ([''E1'', ''E2''], scenario_store))
                     fresh_world fresh_frames))) = [(4, 0)]"
  by code_simp

text \<open>
  Claim C6. For every valid key, a lookup returns a frame and leaves a state in which
  the same lookup returns the same object (the same address) and changes nothing more;
  the parent may be transient or store-backed. In that state the object is the pending
  replacement of the key. When the key was staged before, the lookup returns the staged
  object and changes nothing; otherwise it allocates one new object that carries the
  key (on a store-backed parent the frame made of the document that the lookup found or
  synthesized, on a transient parent an empty frame) and stages it under the key. The
  collection is not written. When the pending replacements were well-formed before,
  they are so afterwards, and the returned object is a frame of the heap with the key
  as its frame number.
\<close>

theorem getitem_identity_stable:
  assumes "1 \<le> n"
  shows "\<exists>a w' s'. getitem (PInt n) w s = (Ok a, w', s')
       \<and> getitem (PInt n) w' s' = (Ok a, w', s')
       \<and> map_of (replacements s') n = Some a
       \<and> collection w' = collection w
       \<and> (case map_of (replacements s) n of
            Some b \<Rightarrow> a = b \<and> w' = w \<and> s' = s
          | None \<Rightarrow>
              a = length (heap w)
              \<and> heap w' = heap w @ [if in_db s then from_doc (lookup_dict n w s)
                                     else empty_frame (Some n)]
              \<and> frame_number (heap w' ! a) = Some n
              \<and> s' = s\<lparr>replacements := AList.update n a (replacements s)\<rparr>)
       \<and> (pending_ok w s \<longrightarrow>
            a < length (heap w') \<and> frame_number (heap w' ! a) = Some n \<and> pending_ok w' s')"
proof (cases "map_of (replacements s) n")
  case (Some a)
  have "(n, a) \<in> set (replacements s)" using Some by (rule map_of_SomeD)
  then have "pending_ok w s \<longrightarrow> a < length (heap w) \<and> frame_number (heap w ! a) = Some n"
    unfolding pending_ok_def by blast
  then show ?thesis using getitem_staged[OF assms Some, of w] Some by auto
next
  case None
  have ext: "pending_ok w' s'"
    if "pending_ok w s" "heap w' = heap w @ [f]" "frame_number f = Some n"
      "s' = s\<lparr>replacements := AList.update n (length (heap w)) (replacements s)\<rparr>"
    for w' s' f
  proof -
    have "set (replacements s') \<subseteq> insert (n, length (heap w)) (set (replacements s))"
      using that(4) set_update_subset[of n "length (heap w)" "replacements s"] by simp
    then show ?thesis
      using that(1,2,3) unfolding pending_ok_def by (auto simp: nth_append)
  qed
  show ?thesis
  proof (cases "in_db s")
    case False
    define a where "a = length (heap w)"
    define w' where "w' = w\<lparr>heap := heap w @ [empty_frame (Some n)]\<rparr>"
    define s' where "s' = s\<lparr>replacements := AList.update n a (replacements s)\<rparr>"
    have g: "getitem (PInt n) w s = (Ok a, w', s')"
      unfolding a_def w'_def s'_def by (rule getitem_transient[OF assms None False])
    have m: "map_of (replacements s') n = Some a" by (simp add: s'_def update_conv')
    have f: "frame_number (heap w' ! a) = Some n" by (simp add: w'_def a_def empty_frame_def)
    have l: "a < length (heap w')" by (simp add: w'_def a_def)
    have p: "pending_ok w s \<longrightarrow> pending_ok w' s'"
      using ext[of w' "empty_frame (Some n)" s'] by (simp add: w'_def s'_def a_def empty_frame_def)
    have c: "collection w' = collection w" by (simp add: w'_def)
    have h: "heap w' = heap w @ [empty_frame (Some n)]" by (simp add: w'_def)
    from getitem_staged[OF assms m, of w'] g m f l p c h False None show ?thesis
      by (simp add: a_def s'_def)
  next
    case True
    obtain a w' where mf: "make_frame (lookup_dict n w s) w = (a, w')" by fastforce
    define s' where "s' = set_replacement a w' s"
    have g: "getitem (PInt n) w s = (Ok a, w', s')"
      unfolding s'_def by (rule getitem_stored[OF assms None True mf])
    have h: "a = length (heap w)" "heap w' = heap w @ [from_doc (lookup_dict n w s)]"
      using make_frame_heap[OF mf] by simp_all
    have f: "frame_number (heap w' ! a) = Some n"
      using h lookup_dict_frame_number[of n w s] by (simp add: from_doc_def)
    have m: "map_of (replacements s') n = Some a"
      unfolding s'_def using f by (rule set_replacement_lookup)
    have s: "s' = s\<lparr>replacements := AList.update n a (replacements s)\<rparr>"
      using f by (simp add: s'_def set_replacement_def)
    have c: "collection w' = collection w"
      using mf by (auto simp: make_frame_def alloc_def register_instance_def
          split: option.splits prod.splits)
    have l: "a < length (heap w')" using h by simp
    have p: "pending_ok w s \<longrightarrow> pending_ok w' s'"
      using ext[of w' "from_doc (lookup_dict n w s)" s'] h s f by simp
    from getitem_staged[OF assms m, of w'] g m f l p c h True None s show ?thesis
      by simp
  qed
qed

theorem getitem_identity_stable_witness:
  "(1::int) \<le> 1 \<and> pending_ok scenario_world scenario_frames
   \<and> (\<exists>a w' s'. getitem (PInt 1) scenario_world scenario_frames = (Ok a, w', s')
        \<and> getitem (PInt 1) w' s' = (Ok a, w', s')
        \<and> map_of (replacements s') 1 = Some a
        \<and> a < length (heap w') \<and> frame_number (heap w' ! a) = Some 1)
   \<and> getitem (PInt 1) scenario_world scenario_frames
       = (Ok 1,
          scenario_world\<lparr>heap := heap scenario_world
              @ [\<lparr>kind = Frame, doc_id = Some 11, in_dataset = True, sample_id = Some 7,
                  frame_number = Some 1, field_bag = [(''label'', PStr ''one'')],
                  selected_fields = None, excluded_fields = None, filtered_fields = None\<rparr>],
            instances := [((7, 2), 0), ((7, 1), 1)]\<rparr>,
          scenario_frames\<lparr>replacements := [(2, 0), (1, 1)]\<rparr>)
   \<and> getitem (PInt 2) scenario_world scenario_frames = (Ok 0, scenario_world, scenario_frames)
   \<and> (\<exists>a w' s'. getitem (PInt 1) fresh_world (fresh_frames\<lparr>sample := \<lparr>sample_oid = None\<rparr>\<rparr>)
          = (Ok a, w', s')
        \<and> getitem (PInt 1) w' s' = (Ok a, w', s')
        \<and> map_of (replacements s') 1 = Some a)"
proof -
  have h: "(1::int) \<le> 1" by simp
  have p: "pending_ok scenario_world scenario_frames" by code_simp
  have e: "getitem (PInt 1) scenario_world scenario_frames
       = (Ok 1,
          scenario_world\<lparr>heap := heap scenario_world
              @ [\<lparr>kind = Frame, doc_id = Some 11, in_dataset = True, sample_id = Some 7,
                  frame_number = Some 1, field_bag = [(''label'', PStr ''one'')],
                  selected_fields = None, excluded_fields = None, filtered_fields = None\<rparr>],
            instances := [((7, 2), 0), ((7, 1), 1)]\<rparr>,
          scenario_frames\<lparr>replacements := [(2, 0), (1, 1)]\<rparr>)"
    by code_simp
  have f: "getitem (PInt 2) scenario_world scenario_frames = (Ok 0, scenario_world, scenario_frames)"
    by code_simp
  from getitem_identity_stable[OF h, of scenario_world scenario_frames] p
  have a: "\<exists>a w' s'. getitem (PInt 1) scenario_world scenario_frames = (Ok a, w', s')
        \<and> getitem (PInt 1) w' s' = (Ok a, w', s')
        \<and> map_of (replacements s') 1 = Some a
        \<and> a < length (heap w') \<and> frame_number (heap w' ! a) = Some 1"
    by blast
  from getitem_identity_stable[OF h, of fresh_world "fresh_frames\<lparr>sample := \<lparr>sample_oid = None\<rparr>\<rparr>"]
  have b: "\<exists>a w' s'. getitem (PInt 1) fresh_world (fresh_frames\<lparr>sample := \<lparr>sample_oid = None\<rparr>\<rparr>)
          = (Ok a, w', s')
        \<and> getitem (PInt 1) w' s' = (Ok a, w', s')
        \<and> map_of (replacements s') 1 = Some a"
    by blast
  show ?thesis using h p e f a b by blast
qed

text \<open>
  Claim C7. On a store-backed parent, for every valid key \<open>n\<close> (stored or not),
  \<open>del frames[n]\<close> followed by \<open>frames[n]\<close> returns a new object (the next free address,
  so none of the objects that existed before) holding an empty frame that carries only
  the parent id and the key; the collection is not changed, and the new frame is staged
  for \<open>n\<close>.
\<close>

theorem get_after_del_is_fresh:
  assumes "in_db s" and "1 \<le> n"
  shows "\<exists>w' s'. getitem (PInt n) w (snd (delitem (PInt n) s)) = (Ok (length (heap w)), w', s')
     \<and> heap w' = heap w @ [\<lparr>kind = Frame, doc_id = None, in_dataset = True,
          sample_id = sample_oid (sample s), frame_number = Some n, field_bag = [],
          selected_fields = None, excluded_fields = None, filtered_fields = None\<rparr>]
     \<and> collection w' = collection w
     \<and> map_of (replacements s') n = Some (length (heap w))"
  using assms
  by (auto simp: getitem_def delitem_def pop_key_def validate_frame_number_def Let_def alloc_def
      hashable_def key_int_def in_deletes_set_add
      set_replacement_def make_frame_def from_doc_def in_db_def delete_conv'
      register_instance_def update_conv'
      split: option.splits prod.splits)

theorem get_after_del_is_fresh_witness:
  "in_db scenario_frames \<and> (1::int) \<le> 1
   \<and> get_frame_db 1 scenario_world scenario_frames \<noteq> None
   \<and> (\<exists>w' s'. getitem (PInt 1) scenario_world (snd (delitem (PInt 1) scenario_frames))
          = (Ok 1, w', s')
        \<and> heap w' = heap scenario_world @ [\<lparr>kind = Frame, doc_id = None, in_dataset = True,
             sample_id = Some 7, frame_number = Some 1, field_bag = [],
             selected_fields = None, excluded_fields = None, filtered_fields = None\<rparr>])"
proof -
  have h1: "in_db scenario_frames" by code_simp
  have h2: "(1::int) \<le> 1" by simp
  have h3: "get_frame_db 1 scenario_world scenario_frames \<noteq> None" by code_simp
  have l: "length (heap scenario_world) = 1" by (simp add: scenario_world_def)
  have o: "sample_oid (sample scenario_frames) = Some 7" by (simp add: scenario_frames_def)
  show ?thesis
    using h1 h2 h3 get_after_del_is_fresh[OF h1 h2, of scenario_world]
    unfolding l o by blast
qed

text \<open>
  Claim C8. \<open>FramesView.add_frame(k, frame)\<close> never mutates or aliases the caller's
  frame, whatever the frame (transient or store-backed) and whatever the outcome: every
  object that was on the heap, the frame among them, is unchanged, and the collection
  and the registry are not touched. When the call returns normally, the key is valid,
  the heap has grown by exactly one object, a new \<open>FrameView\<close> of the parent with the key
  \<open>k\<close>, the restrictions of the view and a copy of the fields of the frame, and this new
  object (not the caller's) is the pending replacement of \<open>k\<close>. The call does return
  normally for a valid key and a \<open>Frame\<close> or \<open>FrameView\<close> whose fields are all accessible
  in the view, with the default \<open>expand_schema\<close>. \<open>Frames.add_frame\<close>, in contrast,
  stages a transient frame itself, after writing the key into it.
\<close>

theorem view_add_frame_never_aliases:
  assumes "a < length (heap w)"
  shows "(\<exists>r w' sv'. view_add_frame k a expand_schema w sv = (r, w', sv')
       \<and> (\<forall>b<length (heap w). heap w' ! b = heap w ! b)
       \<and> length (heap w') \<le> length (heap w) + 1
       \<and> collection w' = collection w \<and> instances w' = instances w
       \<and> (case r of
            Raise e \<Rightarrow> sv' = sv
          | Ok u \<Rightarrow>
              (\<exists>n. k = PInt n \<and> 1 \<le> n
                 \<and> (kind (heap w ! a) = Frame \<or> kind (heap w ! a) = FrameView)
                 \<and> heap w' = heap w
                     @ [new_frame_view sv n (copy_fields (field_bag (heap w ! a)) [])]
                 \<and> sv' = sv\<lparr>replacements :=
                              AList.update n (length (heap w)) (replacements sv)\<rparr>))
       \<and> ((\<exists>n. k = PInt n \<and> 1 \<le> n)
            \<and> (kind (heap w ! a) = Frame \<or> kind (heap w ! a) = FrameView)
            \<and> expand_schema
            \<and> (\<forall>field\<in>fst ` set (field_bag (heap w ! a)).
                  accessible (new_frame_view sv 0 []) field)
            \<longrightarrow> r = Ok ()))
     \<and> (\<forall>n. 1 \<le> n \<and> (kind (heap w ! a) = Frame \<or> kind (heap w ! a) = FrameView)
              \<and> \<not> frame_in_db (heap w ! a)
            \<longrightarrow> (\<exists>w'. add_frame (PInt n) a True w s
                         = (Ok (), w', s\<lparr>replacements := AList.update n a (replacements s)\<rparr>)
                      \<and> frame_number (heap w' ! a) = Some n))"
proof -
  have "\<exists>w'. add_frame (PInt n) a True w s
                 = (Ok (), w', s\<lparr>replacements := AList.update n a (replacements s)\<rparr>)
              \<and> frame_number (heap w' ! a) = Some n"
    if n: "1 \<le> n" and kd: "kind (heap w ! a) = Frame \<or> kind (heap w ! a) = FrameView"
      and tr: "\<not> frame_in_db (heap w ! a)" for n
  proof (cases "in_db s")
    case True
    show ?thesis using add_frame_stored[OF True n assms kd] tr by auto
  next
    case False
    show ?thesis using add_frame_transient[OF False n assms kd tr] assms by simp
  qed
  then show ?thesis using view_add_frame_effect[OF assms, of k expand_schema sv] by blast
qed

theorem view_add_frame_never_aliases_witness:
  "0 < length (heap edit_world) \<and> (1::int) \<le> 4
   \<and> (kind (heap edit_world ! 0) = Frame \<or> kind (heap edit_world ! 0) = FrameView)
   \<and> \<not> frame_in_db (heap edit_world ! 0)
   \<and> field_bag (heap edit_world ! 0) = [(''label'', PStr ''A'')]
   \<and> accessible (new_frame_view fresh_view 0 []) ''label''
   \<and> view_add_frame (PInt 4) 0 True edit_world fresh_view
       = (Ok (),
          edit_world\<lparr>heap := heap edit_world
             @ [\<lparr>kind = FrameView, doc_id = None, in_dataset = True, sample_id = Some 7,
                 frame_number = Some 4, field_bag = [(''label'', PStr ''A'')],
                 selected_fields = None, excluded_fields = Some [''secret''],
                 filtered_fields = None\<rparr>]\<rparr>,
          fresh_view\<lparr>replacements := [(4, 1)]\<rparr>)
   \<and> heap (fst (snd (view_add_frame (PInt 4) 0 True edit_world fresh_view))) ! 0
       = heap edit_world ! 0
   \<and> fst (view_add_frame (PInt 4) 0 True edit_world fresh_view) = Ok ()
   \<and> (\<exists>w'. add_frame (PInt 4) 0 True edit_world fresh_frames
              = (Ok (), w', fresh_frames\<lparr>replacements := [(4, 0)]\<rparr>)
          \<and> frame_number (heap w' ! 0) = Some 4)
   \<and> frame_number (heap edit_world ! 0) = None"
proof -
  have h1: "0 < length (heap edit_world)" by code_simp
  have h2: "(1::int) \<le> 4" by simp
  have h3: "kind (heap edit_world ! 0) = Frame \<or> kind (heap edit_world ! 0) = FrameView"
    by code_simp
  have h4: "\<not> frame_in_db (heap edit_world ! 0)" by code_simp
  have h5: "field_bag (heap edit_world ! 0) = [(''label'', PStr ''A'')]" by code_simp
  have h6: "accessible (new_frame_view fresh_view 0 []) ''label''" by code_simp
  have h7: "\<forall>field\<in>fst ` set (field_bag (heap edit_world ! 0)).
         accessible (new_frame_view fresh_view 0 []) field"
    using h6 unfolding h5 by simp
  have e: "view_add_frame (PInt 4) 0 True edit_world fresh_view
       = (Ok (),
          edit_world\<lparr>heap := heap edit_world
             @ [\<lparr>kind = FrameView, doc_id = None, in_dataset = True, sample_id = Some 7,
                 frame_number = Some 4, field_bag = [(''label'', PStr ''A'')],
                 selected_fields = None, excluded_fields = Some [''secret''],
                 filtered_fields = None\<rparr>]\<rparr>,
          fresh_view\<lparr>replacements := [(4, 1)]\<rparr>)"
    by code_simp
  have f: "frame_number (heap edit_world ! 0) = None" by code_simp
  have u: "AList.update 4 0 (replacements fresh_frames) = [(4, 0)]" by code_simp
  note inst = view_add_frame_never_aliases[OF h1, of "PInt 4" True fresh_view fresh_frames]
  from inst h1 have keep:
    "heap (fst (snd (view_add_frame (PInt 4) 0 True edit_world fresh_view))) ! 0
       = heap edit_world ! 0"
    by auto
  from inst h2 h3 h7 have ok: "fst (view_add_frame (PInt 4) 0 True edit_world fresh_view) = Ok ()"
    by auto
  from inst h2 h3 h4 have "\<exists>w'. add_frame (PInt 4) 0 True edit_world fresh_frames
              = (Ok (), w', fresh_frames\<lparr>replacements :=
                   AList.update 4 0 (replacements fresh_frames)\<rparr>)
          \<and> frame_number (heap w' ! 0) = Some 4"
    by blast
  then have reuse: "\<exists>w'. add_frame (PInt 4) 0 True edit_world fresh_frames
              = (Ok (), w', fresh_frames\<lparr>replacements := [(4, 0)]\<rparr>)
          \<and> frame_number (heap w' ! 0) = Some 4"
    unfolding u .
  show ?thesis using h1 h2 h3 h4 h5 h6 e f keep ok reuse by blast
qed




text \<open>
  Claim C10. \<open>FramesView.reload()\<close> only clears the pending state: the pending
  replacements, the pending deletes and the delete-all flag are reset, and the world
  stays as it is: no frame of the heap changes (a frame view that was materialized
  before keeps what it holds), nor the collection, nor the registry. \<open>Frames.reload()\<close>
  clears the same pending state and, in addition, re-synchronizes the live frames of
  the parent: on a well-formed registry it returns normally without writing the
  collection, and every persisted live frame of the parent whose frame number is
  stored takes the fields of its stored document, whatever it held in memory.
\<close>

theorem reload_view_clears_only:
  assumes "registry_ok w" and "registry_linked w" and "sample_oid (sample s) = Some p"
  shows "view_reload w sv = (w, sv\<lparr>delete_all := False, delete_frames := [], replacements := []\<rparr>)
     \<and> fst (view_reload w sv) = w
     \<and> replacements (snd (view_reload w sv)) = []
     \<and> delete_frames (snd (view_reload w sv)) = []
     \<and> \<not> delete_all (snd (view_reload w sv))
     \<and> (\<exists>w'. reload hard w s
               = (Ok (), w', s\<lparr>delete_all := False, delete_frames := [], replacements := []\<rparr>)
          \<and> collection w' = collection w
          \<and> length (heap w') = length (heap w)
          \<and> (\<forall>n a d. ((p, n), a) \<in> set (instances w) \<and> frame_in_db (heap w ! a)
                      \<and> get_frame_db n w s = Some d
                    \<longrightarrow> heap w' ! a = reloaded (heap w ! a) d \<and> ((p, n), a) \<in> set (instances w')))"
proof -
  define s' where "s' = s\<lparr>delete_all := False, delete_frames := [], replacements := []\<rparr>"
  define fns where "fns = get_frame_numbers w s'"
  have in_db': "in_db s'" using assms(3) by (simp add: s'_def in_db_def sample_in_db_def)
  have fns_db: "fns = get_frame_numbers_db w s"
    using in_db' by (auto simp: fns_def get_frame_numbers_def s'_def in_deletes_def
        get_frame_numbers_db_def)
  define xs where "xs = get_instances (Some p) w"
  have dx: "distinct (map fst xs)" "distinct (map snd xs)"
    and ok: "\<forall>(n, a)\<in>set xs. a < length (heap w) \<and> frame_number (heap w ! a) = Some n"
    using get_instances_ok[OF assms(1), of p] by (simp_all add: xs_def)
  have mem: "(n, a) \<in> set xs \<longleftrightarrow> ((p, n), a) \<in> set (instances w)" for n a
    by (force simp: xs_def get_instances_def)
  have found: "\<exists>d. find (\<lambda>d. of_sample (Some p) d \<and> st_frame_number d = n) (collection w) = Some d"
    if "n \<in> fns" for n
  proof -
    have "\<exists>d\<in>set (collection w). of_sample (Some p) d \<and> st_frame_number d = n"
      using that by (auto simp: fns_db get_frame_numbers_db_def assms(3))
    then show ?thesis by (cases "find (\<lambda>d. of_sample (Some p) d \<and> st_frame_number d = n) (collection w)")
        (auto simp: find_None_iff)
  qed
  have pre: "\<forall>(n, a)\<in>set xs. a < length (heap w)
            \<and> (n \<in> fns \<longrightarrow> (\<exists>f. reload_backing_doc (collection w) (heap w ! a) = Ok f))"
  proof (clarify)
    fix n a assume na: "(n, a) \<in> set xs"
    have al: "a < length (heap w)" and fn: "frame_number (heap w ! a) = Some n"
      using ok na by auto
    have "\<exists>f. reload_backing_doc (collection w) (heap w ! a) = Ok f" if nf: "n \<in> fns"
    proof (cases "frame_in_db (heap w ! a)")
      case True
      have sidp: "sample_id (heap w ! a) = Some p"
        using assms(2) na True mem[of n a] by (auto simp: registry_linked_def)
      obtain d where "find (\<lambda>d. of_sample (Some p) d \<and> st_frame_number d = n) (collection w) = Some d"
        using found[OF nf] by blast
      from reload_backing_doc_found[OF True sidp fn this] show ?thesis by blast
    next
      case False
      then show ?thesis by (simp add: reload_backing_doc_def)
    qed
    then show "a < length (heap w)
            \<and> (n \<in> fns \<longrightarrow> (\<exists>f. reload_backing_doc (collection w) (heap w ! a) = Ok f))"
      using al by blast
  qed
  obtain w1 where r: "sync_frames fns xs w = (Ok (), w1)"
    and c: "collection w1 = collection w" "instances w1 = instances w"
      "length (heap w1) = length (heap w)"
    and ins: "\<forall>(n, a)\<in>set xs.
           if n \<in> fns then reload_backing_doc (collection w) (heap w ! a) = Ok (heap w1 ! a)
           else heap w1 ! a = reset_backing_doc (heap w ! a)"
    using sync_frames_spec[OF dx(2) pre] by blast
  define w' where "w' = w1\<lparr>instances :=
      filter (\<lambda>((i, n), a). \<not> (Some i = Some p \<and> n \<notin> fns)) (instances w1)\<rparr>"
  have sy: "sync_docs_for_sample (Some p) fns hard w = (Ok (), w')"
    using r by (simp add: sync_docs_for_sample_def xs_def[symmetric] w'_def)
  have res: "reload hard w s = (Ok (), w', s')"
  proof -
    have "reload hard w s
        = (case sync_docs_for_sample (sample_oid (sample s')) (get_frame_numbers w s') hard w of
             (r, w') \<Rightarrow> (r, w', s'))"
      by (simp add: reload_def Let_def s'_def)
    moreover have "sample_oid (sample s') = Some p" using assms(3) by (simp add: s'_def)
    ultimately show ?thesis using sy by (simp add: fns_def)
  qed
  have live: "heap w' ! a = reloaded (heap w ! a) d \<and> ((p, n), a) \<in> set (instances w')"
    if m: "((p, n), a) \<in> set (instances w)" and db: "frame_in_db (heap w ! a)"
      and g: "get_frame_db n w s = Some d" for n a d
  proof -
    have na: "(n, a) \<in> set xs" using m mem by simp
    have fn: "frame_number (heap w ! a) = Some n" using ok na by auto
    have sidp: "sample_id (heap w ! a) = Some p"
      using assms(2) m db by (auto simp: registry_linked_def)
    have f: "find (\<lambda>d. of_sample (Some p) d \<and> st_frame_number d = n) (collection w) = Some d"
      using g by (simp add: get_frame_db_def assms(3))
    then have "d \<in> set (collection w)" "of_sample (Some p) d" "st_frame_number d = n"
      by (auto simp: find_Some_iff)
    then have nf: "n \<in> fns"
      by (force simp: fns_db get_frame_numbers_db_def assms(3))
    have "reload_backing_doc (collection w) (heap w ! a) = Ok (heap w1 ! a)"
      using ins na nf by auto
    then have "heap w1 ! a = reloaded (heap w ! a) d"
      using reload_backing_doc_found[OF db sidp fn f] by simp
    moreover have "((p, n), a) \<in> set (instances w')" using m nf c(2) by (simp add: w'_def)
    ultimately show ?thesis by (simp add: w'_def)
  qed
  have cl: "collection w' = collection w" "length (heap w') = length (heap w)"
    using c by (simp_all add: w'_def)
  have all: "\<forall>n a d. ((p, n), a) \<in> set (instances w) \<and> frame_in_db (heap w ! a)
                      \<and> get_frame_db n w s = Some d
                    \<longrightarrow> heap w' ! a = reloaded (heap w ! a) d \<and> ((p, n), a) \<in> set (instances w')"
    using live by blast
  have v: "view_reload w sv
      = (w, sv\<lparr>delete_all := False, delete_frames := [], replacements := []\<rparr>)"
    by (simp add: view_reload_def)
  have "\<exists>w'. reload hard w s
               = (Ok (), w', s\<lparr>delete_all := False, delete_frames := [], replacements := []\<rparr>)
          \<and> collection w' = collection w
          \<and> length (heap w') = length (heap w)
          \<and> (\<forall>n a d. ((p, n), a) \<in> set (instances w) \<and> frame_in_db (heap w ! a)
                      \<and> get_frame_db n w s = Some d
                    \<longrightarrow> heap w' ! a = reloaded (heap w ! a) d \<and> ((p, n), a) \<in> set (instances w'))"
    using res cl all unfolding s'_def by blast
  then show ?thesis using v by simp
qed

theorem reload_view_clears_only_witness:
  "registry_ok live_world \<and> registry_linked live_world
   \<and> sample_oid (sample scenario_frames) = Some 7
   \<and> ((7, 1), 0) \<in> set (instances live_world) \<and> frame_in_db (heap live_world ! 0)
   \<and> view_reload live_world (fresh_view\<lparr>replacements := [(1, 1)], delete_frames := [PInt 3]\<rparr>)
       = (live_world, fresh_view)
   \<and> (\<exists>w'. reload False live_world scenario_frames = (Ok (), w', fresh_frames)
          \<and> collection w' = scenario_store
          \<and> field_bag (heap w' ! 0) = [(''label'', PStr ''one'')])
   \<and> field_bag (heap live_world ! 0) = [(''label'', PStr ''edited'')]
   \<and> field_bag (heap (fst (snd (reload False live_world scenario_frames))) ! 1)
       = [(''label'', PStr ''edited'')]"
proof -
  have h1: "registry_ok live_world" by code_simp
  have h2: "registry_linked live_world" by code_simp
  have h3: "sample_oid (sample scenario_frames) = Some 7" by code_simp
  have m: "((7, 1), 0) \<in> set (instances live_world)" by code_simp
  have db: "frame_in_db (heap live_world ! 0)" by code_simp
  have g: "get_frame_db 1 live_world scenario_frames
      = Some \<lparr>st_id = 11, st_sample_id = 7, st_frame_number = 1,
              st_fields = [(''label'', PStr ''one'')]\<rparr>"
    by code_simp
  have v: "view_reload live_world (fresh_view\<lparr>replacements := [(1, 1)], delete_frames := [PInt 3]\<rparr>)
       = (live_world, fresh_view)"
    by code_simp
  have e: "scenario_frames\<lparr>delete_all := False, delete_frames := [], replacements := []\<rparr>
      = fresh_frames"
    by code_simp
  have c: "collection live_world = scenario_store" by code_simp
  have o: "field_bag (heap live_world ! 0) = [(''label'', PStr ''edited'')]" by code_simp
  have k: "field_bag (heap (fst (snd (reload False live_world scenario_frames))) ! 1)
       = [(''label'', PStr ''edited'')]"
    by code_simp
  from reload_view_clears_only[OF h1 h2 h3, of "fresh_view" False]
  obtain w' where r: "reload False live_world scenario_frames
               = (Ok (), w', scenario_frames\<lparr>delete_all := False, delete_frames := [],
                                              replacements := []\<rparr>)"
    and cw: "collection w' = collection live_world"
    and lv: "\<forall>n a d. ((7, n), a) \<in> set (instances live_world)
                      \<and> frame_in_db (heap live_world ! a)
                      \<and> get_frame_db n live_world scenario_frames = Some d
                    \<longrightarrow> heap w' ! a = reloaded (heap live_world ! a) d
                        \<and> ((7, n), a) \<in> set (instances w')"
    by blast
  have "heap w' ! 0 = reloaded (heap live_world ! 0)
      \<lparr>st_id = 11, st_sample_id = 7, st_frame_number = 1,
       st_fields = [(''label'', PStr ''one'')]\<rparr>"
    using lv m db g by blast
  then have "field_bag (heap w' ! 0) = [(''label'', PStr ''one'')]"
    by (simp add: reloaded_def)
  then have "\<exists>w'. reload False live_world scenario_frames = (Ok (), w', fresh_frames)
          \<and> collection w' = scenario_store
          \<and> field_bag (heap w' ! 0) = [(''label'', PStr ''one'')]"
    using r cw c e by auto
  then show ?thesis using h1 h2 h3 m db v o k by blast
qed

end
